theory Spec2Isabelle
  imports Main
begin

section \<open>Python values and errors\<close>

text \<open>
  The combat core of \<^verbatim>\<open>game.py\<close>: the validation helpers, the class
  \<^verbatim>\<open>Creature\<close> and its subclasses \<^verbatim>\<open>Player\<close> and \<^verbatim>\<open>Monster\<close>.

  Python is dynamically typed, and the code tests its arguments with \<^verbatim>\<open>isinstance\<close>,
  so an argument is a value of \<open>pyval\<close>. A double is carried as a pair \<open>(m, e)\<close> standing
  for \<open>m * 2 ^ e\<close>. An object is named by a reference: an index of the heap.
\<close>

type_synonym double = "int \<times> int"

type_synonym ref = nat

datatype pyval =
    PyInt int
  | PyBool bool
  | PyFloat double
  | PyStr string
  | PyNone
  | PyTuple "pyval list"
  | PyRef ref

text \<open>\<^verbatim>\<open>isinstance(v, int)\<close>: \<^verbatim>\<open>bool\<close> is a subclass of \<^verbatim>\<open>int\<close>.\<close>

fun isinstance_int :: "pyval \<Rightarrow> bool" where
  "isinstance_int (PyInt i) = True"
| "isinstance_int (PyBool b) = True"
| "isinstance_int v = False"

text \<open>The number an \<^verbatim>\<open>int\<close> instance stands for in arithmetic and comparisons
  (\<^verbatim>\<open>True\<close> is 1, \<^verbatim>\<open>False\<close> is 0); only read where \<open>isinstance_int\<close> holds.\<close>

fun int_of :: "pyval \<Rightarrow> int" where
  "int_of (PyInt i) = i"
| "int_of (PyBool b) = (if b then 1 else 0)"
| "int_of v = 0"

text \<open>
  The exceptions the modelled code can raise. \<^verbatim>\<open>ArgumentError\<close> is the class of
  the file; it carries its message, with the interpolated values of the two f-strings of
  \<^verbatim>\<open>_check_stat\<close> left out. \<^verbatim>\<open>OverflowError\<close> comes from the conversion of a
  large \<^verbatim>\<open>int\<close> to \<^verbatim>\<open>float\<close>, \<^verbatim>\<open>ValueError\<close> from
  \<^verbatim>\<open>random.randint\<close> on an empty range, \<^verbatim>\<open>AttributeError\<close> from calling
  \<^verbatim>\<open>heal\<close> on an instance that is not a \<^verbatim>\<open>Player\<close>.
\<close>

datatype error =
    ArgumentError string
  | OverflowError
  | ValueError
  | AttributeError

section \<open>Double-precision arithmetic of \<^verbatim>\<open>int(max_health * 0.3)\<close>\<close>

text \<open>\<^verbatim>\<open>int.bit_length\<close> of a natural number.\<close>

fun bit_length :: "nat \<Rightarrow> nat" where
  "bit_length n = (if n = 0 then 0 else Suc (bit_length (n div 2)))"

declare bit_length.simps [simp del]

text \<open>
  Rounding of a natural number to 53 significant bits, to nearest, ties to even: the
  rounding of IEEE 754 binary64 that both the conversion \<^verbatim>\<open>int\<close> to
  \<^verbatim>\<open>float\<close> and the multiplication of two doubles apply to the exact result.
\<close>

definition round53 :: "nat \<Rightarrow> nat" where
  "round53 k =
     (if bit_length k \<le> 53 then k
      else
        let s = bit_length k - 53;
            q = k div 2 ^ s;
            r = k mod 2 ^ s;
            half = 2 ^ (s - 1)
        in if half < r \<or> (r = half \<and> odd q) then (q + 1) * 2 ^ s else q * 2 ^ s)"

text \<open>
  The conversion of an \<^verbatim>\<open>int\<close> operand to double: correctly rounded, and
  \<^verbatim>\<open>OverflowError\<close> ("int too large to convert to float") when the rounded value
  reaches \<open>2 ^ 1024\<close>.
\<close>

definition float_of_int :: "int \<Rightarrow> error + double" where
  "float_of_int n =
     (let m = round53 (nat \<bar>n\<bar>)
      in if 2 ^ 1024 \<le> m then Inl OverflowError else Inr (sgn n * int m, 0))"

text \<open>
  The product of two doubles: the exact product, rounded. Overflow to infinity and
  underflow to a subnormal are not modelled: the only product of the code is a converted
  \<^verbatim>\<open>int\<close> times \<open>0.3\<close>, which is zero or of magnitude between \<open>0.29\<close> and
  \<open>2 ^ 1023\<close>.
\<close>

definition float_mul :: "double \<Rightarrow> double \<Rightarrow> double" where
  "float_mul a b =
     (let p = fst a * fst b
      in (sgn p * int (round53 (nat \<bar>p\<bar>)), snd a + snd b))"

text \<open>\<^verbatim>\<open>int(x)\<close> of a finite double: truncation towards zero, exact.\<close>

definition int_of_float :: "double \<Rightarrow> int" where
  "int_of_float x =
     (if 0 \<le> snd x then fst x * 2 ^ nat (snd x)
      else sgn (fst x) * (\<bar>fst x\<bar> div 2 ^ nat (- snd x)))"

text \<open>\<^verbatim>\<open>i * x\<close> for an \<^verbatim>\<open>int\<close> \<open>i\<close> and a \<^verbatim>\<open>float\<close> \<open>x\<close>.\<close>

definition int_times_float :: "int \<Rightarrow> double \<Rightarrow> error + double" where
  "int_times_float i x =
     (case float_of_int i of
        Inl e \<Rightarrow> Inl e
      | Inr d \<Rightarrow> Inr (float_mul d x))"


section \<open>Randomness\<close>

text \<open>
  The state of Python's global generator is a stream of raw draws. \<^verbatim>\<open>random.randint(a, b)\<close>
  raises \<^verbatim>\<open>ValueError\<close> on an empty range and otherwise consumes one draw and
  returns some \<open>N\<close> with \<open>a \<le> N \<le> b\<close>; every such \<open>N\<close> is returned for some draw.
  The distribution of the draws is not part of the model.
\<close>

type_synonym rng = "nat \<Rightarrow> nat"

definition advance :: "rng \<Rightarrow> rng" where
  "advance g = (\<lambda>i. g (Suc i))"

definition randint :: "int \<Rightarrow> int \<Rightarrow> rng \<Rightarrow> (error + int) \<times> rng" where
  "randint a b g =
     (if b < a then (Inl ValueError, g)
      else (Inr (a + int (g 0 mod nat (b - a + 1))), advance g))"

section \<open>Validation helpers\<close>

text \<open>\<^verbatim>\<open>_check_stat(name, value, min_v=1, max_v=30)\<close>; \<open>None\<close> is the normal return.\<close>

definition check_stat :: "string \<Rightarrow> pyval \<Rightarrow> int \<Rightarrow> int \<Rightarrow> error option" where
  "check_stat nm v min_v max_v =
     (if \<not> isinstance_int v then Some (ArgumentError (nm @ '' must be int''))
      else if \<not> (min_v \<le> int_of v \<and> int_of v \<le> max_v)
      then Some (ArgumentError (nm @ '' must be between min_v and max_v''))
      else None)"

text \<open>\<^verbatim>\<open>_check_damage_range(dmg)\<close>\<close>

fun check_damage_range :: "pyval \<Rightarrow> error option" where
  "check_damage_range (PyTuple [a, b]) =
     (if \<not> (isinstance_int a \<and> isinstance_int b)
      then Some (ArgumentError ''damage_range must be a tuple of two ints (min, max)'')
      else if int_of a < 1 \<or> int_of b < int_of a
      then Some (ArgumentError ''damage_range values must be natural numbers with min <= max'')
      else None)"
| "check_damage_range v =
     Some (ArgumentError ''damage_range must be a tuple of two ints (min, max)'')"

section \<open>Creatures\<close>

text \<open>
  The attributes \<^verbatim>\<open>Creature.__init__\<close> sets. A number is stored by its value
  (a \<^verbatim>\<open>bool\<close> argument that passes the checks is stored as 0 or 1).
\<close>

record creature =
  name :: string
  attack :: int
  defense :: int
  max_health :: int
  health :: int
  damage_range :: "int \<times> int"

text \<open>
  An instance is tagged with its class; a \<^verbatim>\<open>Player\<close> has the further attribute
  \<^verbatim>\<open>_heals_used\<close>. Every instance is an instance of \<^verbatim>\<open>Creature\<close>.
\<close>

datatype obj =
    Creature creature
  | Player creature int
  | Monster creature

datatype cls = CreatureCls | PlayerCls | MonsterCls

fun fields :: "obj \<Rightarrow> creature" where
  "fields (Creature c) = c"
| "fields (Player c k) = c"
| "fields (Monster c) = c"

fun set_health :: "int \<Rightarrow> obj \<Rightarrow> obj" where
  "set_health v (Creature c) = Creature (c\<lparr>health := v\<rparr>)"
| "set_health v (Player c k) = Player (c\<lparr>health := v\<rparr>) k"
| "set_health v (Monster c) = Monster (c\<lparr>health := v\<rparr>)"

text \<open>The heap: the object a reference \<open>r\<close> names is \<open>h ! r\<close>, for \<open>r < length h\<close>.\<close>

type_synonym heap = "obj list"

definition MAX_HEALS :: int where
  "MAX_HEALS = 4"

text \<open>The double nearest to \<open>0.3\<close>: \<^verbatim>\<open>0x1.3333333333333p-2\<close>.\<close>

definition HEAL_PERCENT :: double where
  "HEAL_PERCENT = (5404319552844595, - 54)"

text \<open>
  \<^verbatim>\<open>Creature.__init__\<close>: the checks in the order of the source, then the attributes.
\<close>

definition Creature_init ::
  "pyval \<Rightarrow> pyval \<Rightarrow> pyval \<Rightarrow> pyval \<Rightarrow> pyval \<Rightarrow> error + creature" where
  "Creature_init nm atk dfn mh dr =
     (case nm of
        PyStr s \<Rightarrow>
          if s = [] then Inl (ArgumentError ''name must be a non-empty string'')
          else (case check_stat ''attack'' atk 1 30 of
             Some e \<Rightarrow> Inl e
           | None \<Rightarrow>
          (case check_stat ''defense'' dfn 1 30 of
             Some e \<Rightarrow> Inl e
           | None \<Rightarrow>
          if \<not> isinstance_int mh \<or> int_of mh \<le> 0
          then Inl (ArgumentError ''max_health must be a positive integer'')
          else (case check_damage_range dr of
             Some e \<Rightarrow> Inl e
           | None \<Rightarrow>
          (case dr of
             PyTuple [a, b] \<Rightarrow>
               Inr \<lparr> name = s, attack = int_of atk, defense = int_of dfn,
                     max_health = int_of mh, health = int_of mh,
                     damage_range = (int_of a, int_of b) \<rparr>
           | _ \<Rightarrow> Inl (ArgumentError ''damage_range must be a tuple of two ints (min, max)'')))))
      | _ \<Rightarrow> Inl (ArgumentError ''name must be a non-empty string''))"

text \<open>
  Instantiating a class: \<^verbatim>\<open>Creature(...)\<close>, \<^verbatim>\<open>Player(...)\<close> (which calls
  \<^verbatim>\<open>super().__init__\<close> and then sets \<^verbatim>\<open>_heals_used = 0\<close>) or
  \<^verbatim>\<open>Monster(...)\<close>. The new object gets a fresh reference.
\<close>

definition new ::
  "cls \<Rightarrow> pyval \<Rightarrow> pyval \<Rightarrow> pyval \<Rightarrow> pyval \<Rightarrow> pyval \<Rightarrow> heap \<Rightarrow> (error + ref) \<times> heap" where
  "new k nm atk dfn mh dr h =
     (case Creature_init nm atk dfn mh dr of
        Inl e \<Rightarrow> (Inl e, h)
      | Inr c \<Rightarrow>
          (Inr (length h),
           h @ [case k of CreatureCls \<Rightarrow> Creature c | PlayerCls \<Rightarrow> Player c 0 | MonsterCls \<Rightarrow> Monster c]))"

text \<open>\<^verbatim>\<open>Creature.is_alive\<close>\<close>

definition is_alive :: "obj \<Rightarrow> bool" where
  "is_alive x = (0 < health (fields x))"

text \<open>\<^verbatim>\<open>Creature.take_damage\<close>, called on the object \<open>self\<close> of the heap.\<close>

definition take_damage :: "ref \<Rightarrow> pyval \<Rightarrow> heap \<Rightarrow> (error + unit) \<times> heap" where
  "take_damage self dmg h =
     (if \<not> isinstance_int dmg \<or> int_of dmg < 0
      then (Inl (ArgumentError ''dmg must be a non-negative int''), h)
      else (Inr (),
            h[self := set_health (max 0 (health (fields (h ! self)) - int_of dmg)) (h ! self)]))"

text \<open>\<^verbatim>\<open>Creature._roll_d6\<close>\<close>

definition roll_d6 :: "rng \<Rightarrow> (error + int) \<times> rng" where
  "roll_d6 g = randint 1 6 g"

text \<open>
  The comprehension \<^verbatim>\<open>[self._roll_d6() for _ in range(dice_count)]\<close>: all the dice
  are rolled, in order, before any of them is looked at.
\<close>

fun roll_dice :: "nat \<Rightarrow> rng \<Rightarrow> (error + int list) \<times> rng" where
  "roll_dice 0 g = (Inr [], g)"
| "roll_dice (Suc n) g =
     (case roll_d6 g of
        (Inl e, g') \<Rightarrow> (Inl e, g')
      | (Inr r, g') \<Rightarrow>
          (case roll_dice n g' of
             (Inl e, g'') \<Rightarrow> (Inl e, g'')
           | (Inr rs, g'') \<Rightarrow> (Inr (r # rs), g'')))"

text \<open>\<^verbatim>\<open>isinstance(other, Creature)\<close>: \<open>other\<close> refers to an object of the heap.\<close>

fun isinstance_Creature :: "heap \<Rightarrow> pyval \<Rightarrow> bool" where
  "isinstance_Creature h (PyRef r) = (r < length h)"
| "isinstance_Creature h v = False"

fun ref_of :: "pyval \<Rightarrow> ref" where
  "ref_of (PyRef r) = r"
| "ref_of v = 0"

text \<open>
  \<^verbatim>\<open>Creature.attack_target\<close>, called on the object \<open>self\<close> with the argument
  \<open>other\<close>, in a world made of the heap and the state of the generator. The result is
  the exception raised or the pair returned, with the world the call leaves behind.
  \<open>self\<close> and \<open>other\<close> may be the same object.
\<close>

definition attack_target ::
  "ref \<Rightarrow> pyval \<Rightarrow> heap \<times> rng \<Rightarrow> (error + bool \<times> int) \<times> heap \<times> rng" where
  "attack_target self other w =
     (let h = fst w; g = snd w in
      if \<not> isinstance_Creature h other
      then (Inl (ArgumentError ''other must be a Creature''), h, g)
      else if \<not> is_alive (h ! self)
      then (Inl (ArgumentError ''dead creatures cannot attack''), h, g)
      else if \<not> is_alive (h ! ref_of other)
      then (Inl (ArgumentError ''cannot attack a dead creature''), h, g)
      else
        let modifier = attack (fields (h ! self)) - defense (fields (h ! ref_of other)) + 1;
            dice_count = max 1 modifier
        in case roll_dice (nat dice_count) g of
             (Inl e, g1) \<Rightarrow> (Inl e, h, g1)
           | (Inr rolls, g1) \<Rightarrow>
               let success = list_ex (\<lambda>r. 5 \<le> r) rolls
               in if success
                  then (case randint (fst (damage_range (fields (h ! self))))
                                     (snd (damage_range (fields (h ! self)))) g1 of
                          (Inl e, g2) \<Rightarrow> (Inl e, h, g2)
                        | (Inr dmg, g2) \<Rightarrow>
                            (case take_damage (ref_of other) (PyInt dmg) h of
                               (Inl e, h') \<Rightarrow> (Inl e, h', g2)
                             | (Inr u, h') \<Rightarrow> (Inr (True, dmg), h', g2)))
                  else (Inr (False, 0), h, g1))"

text \<open>
  \<^verbatim>\<open>Player.heal\<close>. The method exists on a \<^verbatim>\<open>Player\<close> only: on another
  instance the attribute lookup fails.
\<close>

definition heal :: "ref \<Rightarrow> heap \<Rightarrow> (error + int) \<times> heap" where
  "heal self h =
     (case h ! self of
        Player c k \<Rightarrow>
          if \<not> is_alive (Player c k)
          then (Inl (ArgumentError ''dead player cannot heal''), h)
          else if MAX_HEALS \<le> k
          then (Inl (ArgumentError ''no heals left''), h)
          else (case int_times_float (max_health c) HEAL_PERCENT of
                  Inl e \<Rightarrow> (Inl e, h)
                | Inr x \<Rightarrow>
                    let amount = int_of_float x;
                        amount = (if amount \<le> 0 then 1 else amount);
                        new_health = min (max_health c) (health c + amount);
                        restored = new_health - health c
                    in (Inr restored, h[self := Player (c\<lparr>health := new_health\<rparr>) (k + 1)]))
      | _ \<Rightarrow> (Inl AttributeError, h))"

text \<open>\<^verbatim>\<open>Player.heals_left\<close>\<close>

definition heals_left :: "ref \<Rightarrow> heap \<Rightarrow> error + int" where
  "heals_left self h =
     (case h ! self of
        Player c k \<Rightarrow> Inr (max 0 (MAX_HEALS - k))
      | _ \<Rightarrow> Inl AttributeError)"

section \<open>Sequences of calls\<close>

text \<open>
  What a driver can do with the library: build objects and call the three mutating
  methods on objects that exist. A call that raises leaves the world as the call left it,
  and the driver goes on.
\<close>

datatype call =
    New cls pyval pyval pyval pyval pyval
  | TakeDamage ref pyval
  | Heal ref
  | AttackTarget ref pyval

fun exec :: "call \<Rightarrow> heap \<times> rng \<Rightarrow> heap \<times> rng" where
  "exec (New k nm atk dfn mh dr) (h, g) = (snd (new k nm atk dfn mh dr h), g)"
| "exec (TakeDamage r d) (h, g) = (if r < length h then (snd (take_damage r d h), g) else (h, g))"
| "exec (Heal r) (h, g) = (if r < length h then (snd (heal r h), g) else (h, g))"
| "exec (AttackTarget r v) (h, g) = (if r < length h then snd (attack_target r v (h, g)) else (h, g))"

fun run :: "call list \<Rightarrow> heap \<times> rng \<Rightarrow> heap \<times> rng" where
  "run [] w = w"
| "run (c # cs) w = run cs (exec c w)"

text \<open>
  The number of calls \<^verbatim>\<open>self.heal()\<close> of a sequence that return, when the sequence
  is run from the world \<open>w\<close>.
\<close>

fun heal_count :: "ref \<Rightarrow> call list \<Rightarrow> heap \<times> rng \<Rightarrow> nat" where
  "heal_count self [] w = 0"
| "heal_count self (c # cs) w =
     (if c = Heal self \<and> self < length (fst w) \<and> \<not> isl (fst (heal self (fst w))) then 1 else 0)
       + heal_count self cs (exec c w)"

text \<open>The invariants of the data model, for one object.\<close>

definition health_ok :: "obj \<Rightarrow> bool" where
  "health_ok x = (0 \<le> health (fields x) \<and> health (fields x) \<le> max_health (fields x))"

definition valid :: "obj \<Rightarrow> bool" where
  "valid x =
     (name (fields x) \<noteq> [] \<and>
      1 \<le> attack (fields x) \<and> attack (fields x) \<le> 30 \<and>
      1 \<le> defense (fields x) \<and> defense (fields x) \<le> 30 \<and>
      0 < max_health (fields x) \<and>
      health_ok x \<and>
      1 \<le> fst (damage_range (fields x)) \<and>
      fst (damage_range (fields x)) \<le> snd (damage_range (fields x)))"

text \<open>The class of an object and its attribute \<^verbatim>\<open>_heals_used\<close>, if it has one.\<close>

fun class_of :: "obj \<Rightarrow> cls" where
  "class_of (Creature c) = CreatureCls"
| "class_of (Player c k) = PlayerCls"
| "class_of (Monster c) = MonsterCls"

fun heals_used :: "obj \<Rightarrow> int option" where
  "heals_used (Player c k) = Some k"
| "heals_used x = None"

text \<open>Two states of an object that agree on its class and on every attribute that is
  set once, at construction.\<close>

definition same_stats :: "obj \<Rightarrow> obj \<Rightarrow> bool" where
  "same_stats x y =
     (class_of x = class_of y \<and>
      name (fields x) = name (fields y) \<and>
      attack (fields x) = attack (fields y) \<and>
      defense (fields x) = defense (fields y) \<and>
      max_health (fields x) = max_health (fields y) \<and>
      damage_range (fields x) = damage_range (fields y))"

section \<open>Sample objects\<close>

text \<open>Two creatures in a duel: the second one is wounded.\<close>

definition duel :: heap where
  "duel = [Creature \<lparr>name = ''A'', attack = 1, defense = 1, max_health = 10, health = 10, damage_range = (5, 5)\<rparr>,
           Creature \<lparr>name = ''B'', attack = 1, defense = 1, max_health = 10, health = 3, damage_range = (1, 1)\<rparr>]"

text \<open>The player of \<^verbatim>\<open>test_player_heal_limits\<close>, after \<^verbatim>\<open>p.health = 50\<close>.\<close>

definition hero :: heap where
  "hero = [Player \<lparr>name = ''Hero'', attack = 10, defense = 10, max_health = 100, health = 50, damage_range = (1, 6)\<rparr> 0]"

text \<open>Players with a large \<^verbatim>\<open>max_health\<close>.\<close>

definition titan :: heap where
  "titan = [Player \<lparr>name = ''Hero'', attack = 10, defense = 10, max_health = 9000000000000003, health = 1, damage_range = (1, 6)\<rparr> 0]"

definition colossus :: heap where
  "colossus = [Player \<lparr>name = ''Hero'', attack = 10, defense = 10, max_health = 2 ^ 1024, health = 2 ^ 1024, damage_range = (1, 6)\<rparr> 0]"

section \<open>Basic facts about the operations\<close>

lemma fields_set_health [simp]: "fields (set_health v x) = (fields x)\<lparr>health := v\<rparr>"
  by (cases x) simp_all

lemma class_of_set_health [simp]: "class_of (set_health v x) = class_of x"
  by (cases x) simp_all

lemma heals_used_set_health [simp]: "heals_used (set_health v x) = heals_used x"
  by (cases x) simp_all

lemma set_health_same: "health (fields x) = v \<Longrightarrow> set_health v x = x"
  by (cases x) simp_all

lemma advance_funpow: "(advance ^^ n) g = (\<lambda>i. g (i + n))"
  by (induction n arbitrary: g) (simp_all add: advance_def funpow_swap1)

lemma roll_d6_eq: "roll_d6 g = (Inr (1 + int (g 0 mod 6)), advance g)"
  by (simp add: roll_d6_def randint_def)

lemma roll_dice_eq:
  "roll_dice n g = (Inr (map (\<lambda>i. 1 + int (g i mod 6)) [0..<n]), (advance ^^ n) g)"
proof (induction n arbitrary: g)
  case 0
  show ?case by simp
next
  case (Suc n)
  have "map (\<lambda>i. 1 + int (g i mod 6)) [0..<Suc n]
          = (1 + int (g 0 mod 6)) # map (\<lambda>i. 1 + int (advance g i mod 6)) [0..<n]"
    by (simp add: upt_conv_Cons map_Suc_upt [symmetric] advance_def del: upt_Suc)
  then show ?case
    by (simp add: roll_d6_eq Suc funpow_swap1 del: upt_Suc)
qed

lemma randint_range:
  "a \<le> b \<Longrightarrow> randint a b g = (Inr (a + int (g 0 mod nat (b - a + 1))), advance g)
     \<and> a \<le> a + int (g 0 mod nat (b - a + 1)) \<and> a + int (g 0 mod nat (b - a + 1)) \<le> b"
proof -
  assume ab: "a \<le> b"
  have "g 0 mod nat (b - a + 1) < nat (b - a + 1)" using ab by simp
  then have "int (g 0 mod nat (b - a + 1)) < b - a + 1" using ab by linarith
  then show ?thesis using ab by (simp add: randint_def)
qed

lemma take_damage_ok:
  "0 \<le> d \<Longrightarrow> take_damage t (PyInt d) h
     = (Inr (), h[t := set_health (max 0 (health (fields (h ! t)) - d)) (h ! t)])"
  by (simp add: take_damage_def)

lemma take_damage_err: "fst (take_damage t v h) = Inl e \<Longrightarrow> snd (take_damage t v h) = h"
  by (auto simp: take_damage_def split: if_splits)

lemma attack_target_err:
  "fst (attack_target self other (h, g)) = Inl e \<Longrightarrow> fst (snd (attack_target self other (h, g))) = h"
  by (auto simp: attack_target_def Let_def roll_dice_eq randint_def take_damage_def
           split: if_splits prod.splits sum.splits)

lemma take_damage_length [simp]: "length (snd (take_damage t v h)) = length h"
  by (simp add: take_damage_def)

lemma take_damage_frame:
  "r < length h \<Longrightarrow>
     same_stats (snd (take_damage t v h) ! r) (h ! r) \<and>
     heals_used (snd (take_damage t v h) ! r) = heals_used (h ! r) \<and>
     (r \<noteq> t \<longrightarrow> snd (take_damage t v h) ! r = h ! r)"
  by (cases "r = t") (auto simp: take_damage_def same_stats_def)

lemma heal_length [simp]: "length (snd (heal self h)) = length h"
  by (simp add: heal_def Let_def split: obj.splits sum.splits)

lemma heal_frame:
  "r < length h \<Longrightarrow>
     same_stats (snd (heal self h) ! r) (h ! r) \<and>
     (r \<noteq> self \<longrightarrow> snd (heal self h) ! r = h ! r)"
  by (cases "r = self") (auto simp: heal_def Let_def same_stats_def split: obj.splits sum.splits)

lemma attack_target_heap:
  "fst (snd (attack_target self other (h, g))) = h \<or>
   (\<exists>d. 0 \<le> d \<and> fst (attack_target self other (h, g)) = Inr (True, d) \<and>
        isinstance_Creature h other \<and>
        fst (snd (attack_target self other (h, g))) = snd (take_damage (ref_of other) (PyInt d) h))"
  by (auto simp: attack_target_def Let_def roll_dice_eq randint_def take_damage_def
           split: if_splits prod.splits sum.splits)

lemma attack_target_length [simp]: "length (fst (snd (attack_target self other (h, g)))) = length h"
  using attack_target_heap [of self other h g] by auto

lemma attack_target_frame:
  assumes "r < length h"
  shows "same_stats (fst (snd (attack_target self other (h, g))) ! r) (h ! r) \<and>
     heals_used (fst (snd (attack_target self other (h, g))) ! r) = heals_used (h ! r) \<and>
     (r \<noteq> ref_of other \<longrightarrow> fst (snd (attack_target self other (h, g))) ! r = h ! r)"
  using attack_target_heap [of self other h g] take_damage_frame [OF assms]
  by (auto simp: same_stats_def)

lemma attack_target_miss:
  "fst (attack_target self other (h, g)) = Inr (False, d) \<Longrightarrow>
     d = 0 \<and> fst (snd (attack_target self other (h, g))) = h"
  by (auto simp: attack_target_def Let_def roll_dice_eq randint_def take_damage_def
           split: if_splits prod.splits sum.splits)

lemma attack_target_hit:
  assumes "attack_target self other (h, g) = (Inr (True, d), h', g')"
  shows "isinstance_Creature h other \<and> is_alive (h ! self) \<and> is_alive (h ! ref_of other) \<and> 0 \<le> d \<and>
     fst (randint (fst (damage_range (fields (h ! self)))) (snd (damage_range (fields (h ! self))))
          ((advance ^^ nat (max 1 (attack (fields (h ! self)) - defense (fields (h ! ref_of other)) + 1))) g))
       = Inr d \<and>
     h' = h[ref_of other := set_health (max 0 (health (fields (h ! ref_of other)) - d)) (h ! ref_of other)]"
  using assms
  by (auto simp: attack_target_def Let_def roll_dice_eq take_damage_def
           split: if_splits prod.splits sum.splits)

lemma duel_hit:
  "attack_target 0 (PyRef 1) (duel, \<lambda>i. 4) =
     (Inr (True, 5),
      [Creature \<lparr>name = ''A'', attack = 1, defense = 1, max_health = 10, health = 10, damage_range = (5, 5)\<rparr>,
       Creature \<lparr>name = ''B'', attack = 1, defense = 1, max_health = 10, health = 0, damage_range = (1, 1)\<rparr>],
      (advance ^^ 2) (\<lambda>i. 4))"
  by (simp add: attack_target_def duel_def is_alive_def roll_d6_def randint_def take_damage_def
        advance_def numeral_2_eq_2)

section \<open>Facts about the double-precision product\<close>

lemma bit_length_le_iff: "bit_length k \<le> n \<longleftrightarrow> k < 2 ^ n"
proof (induction n arbitrary: k)
  case 0
  show ?case by (subst bit_length.simps) simp
next
  case (Suc n)
  have "bit_length k \<le> Suc n \<longleftrightarrow> k = 0 \<or> bit_length (k div 2) \<le> n"
    by (subst bit_length.simps) simp
  also have "\<dots> \<longleftrightarrow> k = 0 \<or> k div 2 < 2 ^ n"
    by (simp add: Suc)
  also have "\<dots> \<longleftrightarrow> k < 2 ^ Suc n"
    by auto
  finally show ?case .
qed

lemma bit_length_bounds:
  assumes "53 < bit_length k"
  shows "2 ^ (bit_length k - 53 + 52) \<le> k" and "k < 2 ^ (bit_length k - 53 + 53)"
proof -
  have "\<not> bit_length k \<le> bit_length k - 1" using assms by simp
  then have "2 ^ (bit_length k - 1) \<le> k"
    by (simp only: bit_length_le_iff not_less)
  moreover have "bit_length k - 53 + 52 = bit_length k - 1" using assms by simp
  ultimately show "2 ^ (bit_length k - 53 + 52) \<le> k" by simp
  have "bit_length k \<le> bit_length k" by simp
  then have "k < 2 ^ bit_length k" by (simp only: bit_length_le_iff)
  moreover have "bit_length k - 53 + 53 = bit_length k" using assms by simp
  ultimately show "k < 2 ^ (bit_length k - 53 + 53)" by simp
qed

lemma round53_small: "k < 2 ^ 53 \<Longrightarrow> round53 k = k"
  using bit_length_le_iff [of k 53] by (simp add: round53_def)

lemma round53_cases:
  assumes "53 < bit_length k" and "s = bit_length k - 53"
  shows "round53 k = (k div 2 ^ s) * 2 ^ s \<or> round53 k = (k div 2 ^ s + 1) * 2 ^ s"
    and "k div 2 ^ s * 2 ^ s \<le> round53 k"
    and "2 * round53 k \<le> 2 * k + 2 ^ s"
    and "2 ^ (s - 1) < k mod 2 ^ s \<Longrightarrow> round53 k = (k div 2 ^ s + 1) * 2 ^ s"
    and "k mod 2 ^ s < 2 ^ (s - 1) \<Longrightarrow> round53 k = (k div 2 ^ s) * 2 ^ s"
proof -
  let ?q = "k div 2 ^ s" and ?r = "k mod 2 ^ s"
  have s: "0 < s" using assms by simp
  have def: "round53 k = (if 2 ^ (s - 1) < ?r \<or> (?r = 2 ^ (s - 1) \<and> odd ?q)
                          then (?q + 1) * 2 ^ s else ?q * 2 ^ s)"
    using assms by (simp add: round53_def Let_def)
  show "round53 k = ?q * 2 ^ s \<or> round53 k = (?q + 1) * 2 ^ s"
    by (simp add: def)
  show "?q * 2 ^ s \<le> round53 k"
    by (simp add: def)
  have k: "k = ?q * 2 ^ s + ?r" by (rule div_mult_mod_eq [symmetric])
  have two: "(2::nat) ^ s = 2 * 2 ^ (s - 1)"
    using s by (cases s) simp_all
  show "2 * round53 k \<le> 2 * k + 2 ^ s"
  proof (cases "2 ^ (s - 1) < ?r \<or> (?r = 2 ^ (s - 1) \<and> odd ?q)")
    case True
    then have "round53 k = ?q * 2 ^ s + 2 ^ s" by (simp add: def)
    moreover have "2 ^ s \<le> 2 * ?r" using True two by auto
    ultimately show ?thesis using k by linarith
  next
    case False
    then have "round53 k = ?q * 2 ^ s" by (simp add: def)
    then show ?thesis using k by linarith
  qed
  show "2 ^ (s - 1) < ?r \<Longrightarrow> round53 k = (?q + 1) * 2 ^ s"
    by (simp add: def)
  show "?r < 2 ^ (s - 1) \<Longrightarrow> round53 k = ?q * 2 ^ s"
    by (simp add: def)
qed

lemma round53_heal_percent:
  fixes n :: nat
  assumes n0: "0 < n" and nb: "n < 2 ^ 51"
  shows "round53 (n * 5404319552844595) div 2 ^ 54 = 3 * n div 10"
proof -
  define K where "K = n * 5404319552844595"
  define D :: nat where "D = 2 ^ 54"
  define f where "f = 3 * n div 10"
  define r where "r = 3 * n mod 10"
  have Dv: "D = 18014398509481984" by (simp add: D_def)
  have nv: "n < 2251799813685248" using nb by simp
  have fr: "3 * n = 10 * f + r" and r9: "r \<le> 9"
    by (simp_all add: f_def r_def)
  have K10: "10 * K + 2 * n = (10 * f + r) * D"
    unfolding fr [symmetric] by (simp add: K_def Dv)
  have both: "f * D \<le> round53 K \<and> round53 K < (f + 1) * D"
  proof -
    show ?thesis
    proof (cases "bit_length K \<le> 53")
      case True
      then have K53: "K < 2 ^ 53" by (simp only: bit_length_le_iff)
      then have R: "round53 K = K" by (rule round53_small)
      have "n * 5404319552844595 < 9007199254740992" using K53 by (simp add: K_def)
      then have "n = 1" using n0 by linarith
      then have f0: "f = 0" by (simp add: f_def)
      have "K < D" using K53 by (simp add: Dv)
      then show ?thesis
        by (simp add: R f0)
    next
      case False
      then have big: "53 < bit_length K" by simp
      define s where "s = bit_length K - 53"
      note rc = round53_cases [OF big s_def]
      have s0: "0 < s" using big by (simp add: s_def)
      have Klo: "2 ^ (s + 52) \<le> K" and Khi: "K < 2 ^ (s + 53)"
        using bit_length_bounds [OF big] by (simp_all add: s_def)
      have "K < 2 ^ 104"
      proof -
        have "K < 2251799813685248 * 5404319552844595" 
          unfolding K_def using nv by simp
        then show ?thesis by simp
      qed
      then have lt104: "(2::nat) ^ (s + 52) < 2 ^ 104" using Klo by linarith
      have "s + 52 < 104"
        using lt104 by (simp only: power_strict_increasing_iff one_less_numeral_iff semiring_norm)
      then have s51: "s \<le> 51" by simp
      have ps: "(2::nat) ^ s \<le> 2 ^ 51"
        using s51 by (simp only: power_increasing_iff one_less_numeral_iff semiring_norm)
      have psv: "(2::nat) ^ s \<le> 2251799813685248" using ps by simp
      have Ds: "D = 2 ^ (54 - s) * 2 ^ s"
        using s51 by (simp add: D_def power_add [symmetric])
      have two: "(2::nat) ^ s = 2 * 2 ^ (s - 1)"
        using s0 by (cases s) simp_all
      have up: "round53 K < (f + 1) * D"
      proof -
        have "10 * (2 * round53 K) \<le> 10 * (2 * K + 2 ^ s)"
          using rc(3) by (rule mult_le_mono2)
        then have "20 * round53 K + 4 * n \<le> 2 * (10 * K + 2 * n) + 10 * 2 ^ s"
          by simp
        also have "\<dots> = 2 * ((10 * f + r) * D) + 10 * 2 ^ s"
          by (simp only: K10)
        also have "\<dots> \<le> 2 * ((10 * f + 9) * D) + 10 * 2 ^ s"
          using r9 by simp
        also have "\<dots> < 20 * ((f + 1) * D)"
          using psv by (simp add: Dv)
        finally show ?thesis by simp
      qed
      have low: "f * D \<le> round53 K"
      proof (cases "r = 0")
        case False
        have "2 * n < D" using nv by (simp add: Dv)
        moreover have "10 * f * D + D \<le> (10 * f + r) * D"
          using False by (simp add: Dv)
        ultimately have "f * D \<le> K" using K10 by linarith
        then have "f * 2 ^ (54 - s) * 2 ^ s \<le> K"
          by (simp add: Ds mult.assoc)
        then have "f * 2 ^ (54 - s) \<le> K div 2 ^ s"
          by (simp add: less_eq_div_iff_mult_less_eq)
        then have "f * 2 ^ (54 - s) * 2 ^ s \<le> K div 2 ^ s * 2 ^ s"
          by (rule mult_le_mono1)
        then have "f * 2 ^ (54 - s) * 2 ^ s \<le> round53 K"
          using rc(2) by (rule le_trans)
        then show ?thesis by (simp add: Ds mult.assoc)
      next
        case True
        define a where "a = f * 2 ^ (54 - s)"
        have aD: "a * 2 ^ s = f * D" by (simp add: a_def Ds mult.assoc)
        have K10': "10 * K + 2 * n = 10 * (f * D)"
          using K10 True by simp
        have f0: "0 < f" using fr True n0 by simp
        then have a0: "0 < a" by (simp add: a_def)
        obtain t where t: "n = 5 * t"
        proof -
          have "3 * n = 10 * f" using fr True by simp
          then have "5 dvd 3 * n" by simp
          then have "5 dvd n" by presburger
          then show ?thesis using that by auto
        qed
        have t0: "0 < t" using n0 t by simp
        have Kt: "K + t = f * D" using K10' t by simp
        have "5 * n * 5404319552844595 \<ge> n * D" by (simp add: Dv)
        then have "n * D \<le> 5 * K" by (simp add: K_def)
        moreover have "K < 2 ^ (s - 1) * D"
          using Khi two by (simp add: D_def power_add)
        ultimately have "n * D < 5 * 2 ^ (s - 1) * D" by linarith
        then have "n < 5 * 2 ^ (s - 1)" by simp
        then have th: "t < 2 ^ (s - 1)" using t by simp
        have Keq: "K = (a - 1) * 2 ^ s + (2 ^ s - t)"
        proof -
          have "a * 2 ^ s = (a - 1) * 2 ^ s + 2 ^ s"
            using a0 by (cases a) simp_all
          then show ?thesis using Kt aD th two by linarith
        qed
        have lt: "(2::nat) ^ s - t < 2 ^ s" using t0 by simp
        have "K mod 2 ^ s = 2 ^ s - t"
          by (subst Keq) (simp add: lt)
        moreover have "K div 2 ^ s = a - 1"
          by (subst Keq) (simp add: lt)
        moreover have "2 ^ (s - 1) < 2 ^ s - t" using th two by linarith
        ultimately have "round53 K = (a - 1 + 1) * 2 ^ s"
          using rc(4) by simp
        then show ?thesis using a0 aD by simp
      qed
      show ?thesis using low up by simp
    qed
  qed
  have "round53 K div D = f"
    using both by (intro div_nat_eqI) (simp_all add: mult.commute)
  then show ?thesis by (simp add: K_def D_def f_def)
qed

lemma float_of_int_small: "\<bar>n\<bar> < 2 ^ 53 \<Longrightarrow> float_of_int n = Inr (n, 0)"
proof -
  assume a: "\<bar>n\<bar> < 2 ^ 53"
  then have "nat \<bar>n\<bar> < 2 ^ 53"
    by (simp add: nat_less_iff)
  then have r: "round53 (nat \<bar>n\<bar>) = nat \<bar>n\<bar>" by (rule round53_small)
  have "nat \<bar>n\<bar> < 2 ^ 1024"
    using \<open>nat \<bar>n\<bar> < 2 ^ 53\<close> by (rule less_trans) simp
  then have "\<not> (2::nat) ^ 1024 \<le> nat \<bar>n\<bar>" by (simp only: not_le)
  moreover have "sgn n * int (nat \<bar>n\<bar>) = n"
    by (simp add: mult_sgn_abs)
  ultimately show ?thesis
    by (simp only: float_of_int_def Let_def r if_False)
qed

lemma heal_percent_small:
  assumes "\<bar>n\<bar> < 2 ^ 51"
  shows "\<exists>x. int_times_float n HEAL_PERCENT = Inr x \<and>
             (0 < n \<longrightarrow> int_of_float x = 3 * n div 10) \<and>
             (n \<le> 0 \<longrightarrow> int_of_float x \<le> 0)"
proof -
  have "\<bar>n\<bar> < 2 ^ 53" using assms by simp
  then have f: "float_of_int n = Inr (n, 0)" by (rule float_of_int_small)
  define x where "x = float_mul (n, 0) HEAL_PERCENT"
  have itf: "int_times_float n HEAL_PERCENT = Inr x"
    by (simp add: int_times_float_def f x_def)
  have neg: "n \<le> 0 \<Longrightarrow> int_of_float x \<le> 0"
  proof -
    assume "n \<le> 0"
    then have "sgn (n * 5404319552844595) \<le> 0"
      by (simp add: sgn_if mult_le_0_iff)
    then have "fst x \<le> 0"
      by (simp add: x_def float_mul_def HEAL_PERCENT_def Let_def mult_le_0_iff)
    then show ?thesis
      by (auto simp: int_of_float_def x_def float_mul_def HEAL_PERCENT_def Let_def sgn_if
          intro: mult_nonneg_nonneg)
  qed
  have pos: "0 < n \<Longrightarrow> int_of_float x = 3 * n div 10"
  proof -
    assume n0: "0 < n"
    define m where "m = nat n"
    have m: "0 < m" "m < 2 ^ 51" "n = int m"
      using n0 assms by (simp_all add: m_def nat_less_iff)
    have k: "round53 (m * 5404319552844595) div 2 ^ 54 = 3 * m div 10"
      using m(1,2) by (rule round53_heal_percent)
    have "nat \<bar>n * 5404319552844595\<bar> = m * 5404319552844595"
      using n0 by (simp add: m_def nat_mult_distrib abs_mult)
    moreover have "sgn (n * 5404319552844595) = 1"
      using n0 by (simp add: sgn_if)
    ultimately have x: "x = (int (round53 (m * 5404319552844595)), - 54)"
      by (simp add: x_def float_mul_def HEAL_PERCENT_def Let_def)
    have "int_of_float x = int (round53 (m * 5404319552844595)) div 2 ^ 54"
      by (simp add: int_of_float_def x sgn_if)
    also have "\<dots> = int (round53 (m * 5404319552844595) div 2 ^ 54)"
      by (simp add: zdiv_int)
    also have "\<dots> = int (3 * m div 10)" by (simp only: k)
    also have "\<dots> = 3 * n div 10" by (simp add: m(3) zdiv_int)
    finally show ?thesis .
  qed
  show ?thesis using itf neg pos by blast
qed

lemma bit_length_eqI: "2 ^ n \<le> k \<Longrightarrow> k < 2 ^ Suc n \<Longrightarrow> bit_length k = Suc n"
proof -
  assume a: "2 ^ n \<le> k" and b: "k < 2 ^ Suc n"
  have "bit_length k \<le> Suc n" using b by (simp only: bit_length_le_iff)
  moreover have "\<not> bit_length k \<le> n" using a by (simp only: bit_length_le_iff not_less)
  ultimately show ?thesis by simp
qed

lemma round53_9e15: "round53 48638875975601371212958658533785 = 48638875975601374814398509481984"
proof -
  have bl: "bit_length 48638875975601371212958658533785 = Suc 105"
    by (rule bit_length_eqI) simp_all
  show ?thesis
    by (simp add: round53_def bl Let_def)
qed

lemma heal_percent_9e15:
  "int_times_float 9000000000000003 HEAL_PERCENT = Inr (48638875975601374814398509481984, - 54)"
proof -
  have "float_of_int 9000000000000003 = Inr (9000000000000003, 0)"
    by (rule float_of_int_small) simp
  then show ?thesis
    using round53_9e15
    by (simp add: int_times_float_def float_mul_def HEAL_PERCENT_def Let_def)
qed

lemma heal_amount_9e15:
  "int_of_float (48638875975601374814398509481984, - 54) = 2700000000000001
   \<and> 3 * 9000000000000003 div 10 = (2700000000000000::int)"
  by (simp add: int_of_float_def)

lemma round53_ge:
  assumes "53 < bit_length k"
  shows "2 ^ (bit_length k - 1) \<le> round53 k"
proof -
  define s where "s = bit_length k - 53"
  note rc = round53_cases [OF assms s_def]
  have "2 ^ 52 * 2 ^ s \<le> k"
    using bit_length_bounds(1) [OF assms] by (simp add: s_def power_add mult.commute)
  then have "2 ^ 52 \<le> k div 2 ^ s"
    by (simp add: less_eq_div_iff_mult_less_eq)
  then have "2 ^ 52 * 2 ^ s \<le> k div 2 ^ s * 2 ^ s"
    by (rule mult_le_mono1)
  then have "2 ^ 52 * 2 ^ s \<le> round53 k"
    using rc(2) by (rule le_trans)
  moreover have "bit_length k - 1 = 52 + s"
    using assms by (simp add: s_def)
  ultimately show ?thesis
    by (simp only: power_add)
qed

lemma round53_overflow:
  assumes "2 ^ 1024 \<le> k"
  shows "2 ^ 1024 \<le> round53 k"
proof -
  have nb: "\<not> bit_length k \<le> 1024"
    using assms by (simp only: bit_length_le_iff not_less)
  then have big: "53 < bit_length k" by simp
  have "1024 \<le> bit_length k - 1" using nb by simp
  then have "(2::nat) ^ 1024 \<le> 2 ^ (bit_length k - 1)"
    by (simp only: power_increasing_iff one_less_numeral_iff semiring_norm)
  then show ?thesis
    using round53_ge [OF big] by (rule le_trans)
qed

lemma round53_no_overflow:
  assumes "k < 2 ^ 1024 - 2 ^ 970"
  shows "round53 k < 2 ^ 1024"
proof (cases "bit_length k \<le> 53")
  case True
  then have "k < 2 ^ 53" by (simp only: bit_length_le_iff)
  then have "round53 k = k" by (rule round53_small)
  moreover have "k < 2 ^ 1024" using assms by simp
  ultimately show ?thesis by simp
next
  case False
  then have big: "53 < bit_length k" by simp
  define s where "s = bit_length k - 53"
  define q where "q = k div 2 ^ s"
  note rc = round53_cases [OF big s_def, folded q_def]
  have k1024: "k < 2 ^ 1024" using assms by simp
  then have "bit_length k \<le> 1024" by (simp only: bit_length_le_iff)
  then have s971: "s \<le> 971" by (simp add: s_def)
  have "k < 2 ^ 53 * 2 ^ s"
    using bit_length_bounds(2) [OF big] by (simp add: s_def power_add mult.commute)
  then have q53: "q < 2 ^ 53"
    unfolding q_def by (rule less_mult_imp_div_less)
  have le: "round53 k \<le> (q + 1) * 2 ^ s"
    using rc(1) by auto
  show ?thesis
  proof (cases "s = 971 \<and> q + 1 = 2 ^ 53")
    case False
    have "(q + 1) * 2 ^ s < 2 ^ 1024"
    proof (cases "s = 971")
      case True
      have "q + 1 < 2 ^ 53" using False True q53 by simp
      then have "(q + 1) * 2 ^ 971 < 2 ^ 53 * 2 ^ 971"
        by (simp only: mult_less_cancel2) simp
      then show ?thesis by (simp only: True power_add [symmetric]) simp
    next
      case False
      then have "s + 53 < 1024" using s971 by simp
      then have lt: "(2::nat) ^ (s + 53) < 2 ^ 1024"
        by (simp only: power_strict_increasing_iff one_less_numeral_iff semiring_norm)
      have "q + 1 \<le> 2 ^ 53" using q53 by simp
      then have "(q + 1) * 2 ^ s \<le> 2 ^ 53 * 2 ^ s"
        by (rule mult_le_mono1)
      then have "(q + 1) * 2 ^ s \<le> 2 ^ (s + 53)"
        by (simp only: power_add mult.commute)
      then show ?thesis using lt by (rule le_less_trans)
    qed
    with le show ?thesis by (rule le_less_trans)
  next
    case True
    then have s: "s = 971" and q: "q + 1 = 2 ^ 53" by simp_all
    have kq: "k = q * 2 ^ s + k mod 2 ^ s"
      unfolding q_def by (rule div_mult_mod_eq [symmetric])
    have "(q + 1) * 2 ^ 971 = (2::nat) ^ 1024"
      by (simp only: q power_add [symmetric]) simp
    then have "q * 2 ^ 971 + 2 * 2 ^ 970 = (2::nat) ^ 1024"
      by simp
    moreover have "k + 2 ^ 970 < 2 ^ 1024" using assms by simp
    ultimately have "k mod 2 ^ 971 < 2 ^ 970 \<and> q * 2 ^ 971 < 2 ^ 1024"
      using kq unfolding s by linarith
    then have "k mod 2 ^ s < 2 ^ (s - 1)" and lt: "q * 2 ^ s < 2 ^ 1024"
      by (simp_all add: s)
    then have "round53 k = q * 2 ^ s" using rc(5) by simp
    then show ?thesis using lt by simp
  qed
qed

lemma float_of_int_overflow: "2 ^ 1024 \<le> \<bar>n\<bar> \<Longrightarrow> float_of_int n = Inl OverflowError"
proof -
  assume "2 ^ 1024 \<le> \<bar>n\<bar>"
  then have "2 ^ 1024 \<le> nat \<bar>n\<bar>" by (simp add: le_nat_iff)
  then have "2 ^ 1024 \<le> round53 (nat \<bar>n\<bar>)" by (rule round53_overflow)
  then show ?thesis by (simp only: float_of_int_def Let_def if_True)
qed

lemma float_of_int_no_overflow:
  "\<bar>n\<bar> < 2 ^ 1024 - 2 ^ 970 \<Longrightarrow> \<exists>d. float_of_int n = Inr d"
proof -
  assume "\<bar>n\<bar> < 2 ^ 1024 - 2 ^ 970"
  then have "nat \<bar>n\<bar> < 2 ^ 1024 - 2 ^ 970" by (simp add: nat_less_iff of_nat_diff)
  then have "round53 (nat \<bar>n\<bar>) < 2 ^ 1024" by (rule round53_no_overflow)
  then have "\<not> 2 ^ 1024 \<le> round53 (nat \<bar>n\<bar>)" by (simp only: not_le)
  then show ?thesis by (simp only: float_of_int_def Let_def if_False) blast
qed

section \<open>Facts about healing\<close>

lemma heal_player:
  assumes "h ! self = Player c k" and "0 < health c" and "k < 4"
    and "int_times_float (max_health c) HEAL_PERCENT = Inr x"
    and "amount = (if int_of_float x \<le> 0 then 1 else int_of_float x)"
    and "new_health = min (max_health c) (health c + amount)"
  shows "heal self h = (Inr (new_health - health c), h[self := Player (c\<lparr>health := new_health\<rparr>) (k + 1)])"
  using assms by (simp add: heal_def is_alive_def MAX_HEALS_def Let_def)

lemma heal_no_overflow:
  assumes "h ! self = Player c k" and "0 < health c" and "k < 4"
    and "\<bar>max_health c\<bar> < 2 ^ 1024 - 2 ^ 970"
  shows "\<exists>amount. 1 \<le> amount \<and>
           heal self h = (Inr (min (max_health c) (health c + amount) - health c),
                          h[self := Player (c\<lparr>health := min (max_health c) (health c + amount)\<rparr>) (k + 1)])"
proof -
  obtain d where "float_of_int (max_health c) = Inr d"
    using float_of_int_no_overflow [OF assms(4)] by blast
  then have "int_times_float (max_health c) HEAL_PERCENT = Inr (float_mul d HEAL_PERCENT)"
    by (simp add: int_times_float_def)
  from heal_player [OF assms(1-3) this refl refl]
  show ?thesis by (intro exI conjI) (auto split: if_splits)
qed

lemma heal_errors:
  assumes "h ! self = Player c k"
  shows "\<not> 0 < health c \<Longrightarrow> heal self h = (Inl (ArgumentError ''dead player cannot heal''), h)"
    and "0 < health c \<Longrightarrow> 4 \<le> k \<Longrightarrow> heal self h = (Inl (ArgumentError ''no heals left''), h)"
  using assms by (simp_all add: heal_def is_alive_def MAX_HEALS_def)

lemma heal_steps:
  assumes "self < length h" and "h ! self = Player c k" and "0 < health c"
    and "0 < max_health c" and "max_health c < 2 ^ 1024 - 2 ^ 970" and "k + int i \<le> 4"
  shows "\<exists>c'. fst (run (replicate i (Heal self)) (h, g)) ! self = Player c' (k + int i) \<and>
              0 < health c' \<and> max_health c' = max_health c \<and>
              length (fst (run (replicate i (Heal self)) (h, g))) = length h"
  using assms
proof (induction i arbitrary: h c k)
  case 0
  then show ?case by simp
next
  case (Suc i)
  have k4: "k < 4" using Suc.prems(6) by simp
  have ab: "\<bar>max_health c\<bar> < 2 ^ 1024 - 2 ^ 970" using Suc.prems(4,5) by simp
  obtain amount where am: "1 \<le> amount"
    and hl: "heal self h = (Inr (min (max_health c) (health c + amount) - health c),
               h[self := Player (c\<lparr>health := min (max_health c) (health c + amount)\<rparr>) (k + 1)])"
    using heal_no_overflow [OF Suc.prems(2,3) k4 ab] by blast
  define c1 where "c1 = c\<lparr>health := min (max_health c) (health c + amount)\<rparr>"
  define h1 where "h1 = h[self := Player c1 (k + 1)]"
  have ex: "exec (Heal self) (h, g) = (h1, g)"
    using Suc.prems(1) by (simp add: hl h1_def c1_def)
  have p1: "self < length h1" "h1 ! self = Player c1 (k + 1)" "0 < health c1"
    "0 < max_health c1" "max_health c1 < 2 ^ 1024 - 2 ^ 970" "k + 1 + int i \<le> 4"
    using Suc.prems am by (simp_all add: h1_def c1_def)
  have step: "run (replicate (Suc i) (Heal self)) (h, g) = run (replicate i (Heal self)) (h1, g)"
    using ex by (simp del: exec.simps)
  have eqs: "k + 1 + int i = k + int (Suc i)" "max_health c1 = max_health c" "length h1 = length h"
    by (simp_all add: h1_def c1_def)
  from Suc.IH [OF p1] show ?case
    unfolding step eqs .
qed

section \<open>The health invariant\<close>

lemma health_ok_update:
  assumes "list_all health_ok h" and "t < length h \<Longrightarrow> health_ok x"
  shows "list_all health_ok (h[t := x])"
proof (cases "t < length h")
  case True
  have "set (h[t := x]) \<subseteq> insert x (set h)" by (rule set_update_subset_insert)
  then show ?thesis using assms True by (auto simp: list_all_iff)
next
  case False
  then show ?thesis using assms(1) by (simp add: list_update_beyond)
qed

lemma take_damage_inv:
  assumes "list_all health_ok h"
  shows "list_all health_ok (snd (take_damage t v h))"
proof (cases "\<not> isinstance_int v \<or> int_of v < 0")
  case True
  then show ?thesis using assms by (auto simp: take_damage_def)
next
  case False
  have "t < length h \<Longrightarrow> health_ok (set_health (max 0 (health (fields (h ! t)) - int_of v)) (h ! t))"
  proof -
    assume "t < length h"
    then have "health_ok (h ! t)" using assms by (simp add: list_all_length)
    then show ?thesis using False by (simp add: health_ok_def)
  qed
  then show ?thesis
    using False assms by (simp add: take_damage_def health_ok_update)
qed

lemma heal_inv:
  assumes "list_all health_ok h"
  shows "list_all health_ok (snd (heal self h))"
proof (cases "self < length h")
  case True
  then have ok: "health_ok (h ! self)" using assms by (simp add: list_all_length)
  show ?thesis
  proof (cases "h ! self")
    case (Player c k)
    have "\<And>a. 0 < health c \<Longrightarrow> 1 \<le> a \<Longrightarrow>
            health_ok (Player (c\<lparr>health := min (max_health c) (health c + a)\<rparr>) (k + 1))"
      using ok by (simp add: health_ok_def Player)
    then show ?thesis
      using assms
      by (auto simp: heal_def Player Let_def is_alive_def intro!: health_ok_update
          split: sum.splits)
  qed (use assms in \<open>simp_all add: heal_def\<close>)
next
  case False
  have "length (snd (heal self h)) = length h" by simp
  have "snd (heal self h) = h"
    using False by (auto simp: heal_def Let_def list_update_beyond split: obj.splits sum.splits)
  then show ?thesis using assms by simp
qed

lemma attack_target_inv:
  assumes "list_all health_ok h"
  shows "list_all health_ok (fst (snd (attack_target self other (h, g))))"
  using attack_target_heap [of self other h g] take_damage_inv [OF assms] assms
  by auto

lemma Creature_init_ok:
  assumes "Creature_init nm atk dfn mh dr = Inr c"
  shows "name c \<noteq> [] \<and> 1 \<le> attack c \<and> attack c \<le> 30 \<and> 1 \<le> defense c \<and> defense c \<le> 30 \<and>
         0 < max_health c \<and> health c = max_health c \<and>
         1 \<le> fst (damage_range c) \<and> fst (damage_range c) \<le> snd (damage_range c)"
proof -
  obtain a b where dr: "dr = PyTuple [a, b]"
    using assms
    by (cases "(dr)" rule: check_damage_range.cases)
       (auto simp: Creature_init_def split: pyval.splits if_splits option.splits)
  show ?thesis
    using assms unfolding dr
    by (auto simp: Creature_init_def check_stat_def split: pyval.splits if_splits option.splits)
qed

lemma new_ok:
  assumes "new k nm atk dfn mh dr h = (Inr r, h')"
  shows "r = length h \<and> length h' = Suc (length h) \<and> take (length h) h' = h \<and> class_of (h' ! r) = k \<and>
         valid (h' ! r) \<and> health (fields (h' ! r)) = max_health (fields (h' ! r)) \<and>
         heals_used (h' ! r) = (if k = PlayerCls then Some 0 else None)"
proof -
  obtain c where c: "Creature_init nm atk dfn mh dr = Inr c"
    using assms by (auto simp: new_def split: sum.splits)
  note ok = Creature_init_ok [OF c]
  show ?thesis
    using assms ok
    by (cases k) (auto simp: new_def c valid_def health_ok_def)
qed

lemma new_inv:
  assumes "list_all health_ok h"
  shows "list_all health_ok (snd (new k nm atk dfn mh dr h))"
proof (cases "fst (new k nm atk dfn mh dr h)")
  case (Inl e)
  then have "snd (new k nm atk dfn mh dr h) = h"
    by (auto simp: new_def split: sum.splits)
  then show ?thesis using assms by simp
next
  case (Inr r)
  then have n: "new k nm atk dfn mh dr h = (Inr r, snd (new k nm atk dfn mh dr h))"
    by (simp add: prod_eq_iff)
  obtain c where c: "Creature_init nm atk dfn mh dr = Inr c"
    using Inr by (auto simp: new_def split: sum.splits)
  have "valid (snd (new k nm atk dfn mh dr h) ! length h)"
    using new_ok [OF n] by blast
  then have "health_ok (snd (new k nm atk dfn mh dr h) ! length h)"
    by (simp add: valid_def)
  then show ?thesis
    using assms by (simp add: new_def c)
qed

lemma exec_inv:
  assumes "list_all health_ok (fst w)"
  shows "list_all health_ok (fst (exec c w))"
proof (cases w)
  case (Pair h g)
  then have h: "list_all health_ok h" using assms by simp
  show ?thesis
    unfolding Pair
    by (cases c) (simp_all add: h new_inv take_damage_inv heal_inv attack_target_inv)
qed

lemma run_inv: "list_all health_ok (fst w) \<Longrightarrow> list_all health_ok (fst (run cs w))"
  by (induction cs arbitrary: w) (simp_all add: exec_inv)

lemma take_damages_run:
  assumes "self < length h" and "0 \<le> health (fields (h ! self))"
    and "\<forall>d \<in> set ds. isinstance_int d \<and> 0 \<le> int_of d"
  shows "length (fst (run (map (TakeDamage self) ds) (h, g))) = length h \<and>
         health (fields (fst (run (map (TakeDamage self) ds) (h, g)) ! self))
           = max 0 (health (fields (h ! self)) - sum_list (map int_of ds))"
  using assms
proof (induction ds arbitrary: h)
  case Nil
  then show ?case by simp
next
  case (Cons d ds)
  define h1 where "h1 = h[self := set_health (max 0 (health (fields (h ! self)) - int_of d)) (h ! self)]"
  have d: "isinstance_int d" "0 \<le> int_of d" using Cons.prems(3) by simp_all
  have ex: "exec (TakeDamage self d) (h, g) = (h1, g)"
    using Cons.prems(1) d by (simp add: take_damage_def h1_def)
  have step: "run (map (TakeDamage self) (d # ds)) (h, g) = run (map (TakeDamage self) ds) (h1, g)"
    using ex by (simp del: exec.simps)
  have p: "self < length h1" "0 \<le> health (fields (h1 ! self))"
    "\<forall>d \<in> set ds. isinstance_int d \<and> 0 \<le> int_of d"
    using Cons.prems by (simp_all add: h1_def)
  have hp: "health (fields (h1 ! self)) = max 0 (health (fields (h ! self)) - int_of d)"
    using Cons.prems(1) by (simp add: h1_def)
  have "0 \<le> sum_list (map int_of ds)"
    using p(3) by (intro sum_list_nonneg) auto
  then have "max 0 (max 0 (health (fields (h ! self)) - int_of d) - sum_list (map int_of ds))
      = max 0 (health (fields (h ! self)) - sum_list (map int_of (d # ds)))"
    by simp
  then show ?case
    using Cons.IH [OF p] unfolding step hp by (simp add: h1_def)
qed

lemma heal_titan:
  "heal 0 titan = (Inr 2700000000000001,
     [Player \<lparr>name = ''Hero'', attack = 10, defense = 10, max_health = 9000000000000003,
              health = 2700000000000002, damage_range = (1, 6)\<rparr> 1])"
  using heal_player [of titan 0 "\<lparr>name = ''Hero'', attack = 10, defense = 10,
      max_health = 9000000000000003, health = 1, damage_range = (1, 6)\<rparr>" 0
      "(48638875975601374814398509481984, - 54)" 2700000000000001 2700000000000002]
  by (simp add: titan_def heal_percent_9e15 heal_amount_9e15)

lemma heal_colossus: "heal 0 colossus = (Inl OverflowError, colossus)"
proof -
  have "float_of_int (2 ^ 1024) = Inl OverflowError"
    by (rule float_of_int_overflow) simp
  then have "int_times_float (2 ^ 1024) HEAL_PERCENT = Inl OverflowError"
    by (simp only: int_times_float_def sum.case)
  then show ?thesis
    by (simp add: heal_def colossus_def is_alive_def MAX_HEALS_def)
qed

lemma heal_increments:
  assumes "self < length h" and "h ! self = Player c k" and "heal self h = (Inr r, h')"
  shows "heals_used (h' ! self) = Some (k + 1)"
  using assms
  by (auto simp: heal_def Let_def split: if_splits sum.splits)

lemma round53_overflow_edge:
  assumes lo: "2 ^ 1024 - 2 ^ 970 \<le> k" and hi: "k < 2 ^ 1024"
  shows "round53 k = 2 ^ 1024"
proof -
  have "(2::nat) ^ 1023 \<le> 2 ^ 1024 - 2 ^ 970" by simp
  then have k1023: "2 ^ 1023 \<le> k" using lo by (rule le_trans)
  have bl: "bit_length k = Suc 1023"
    using k1023 hi by (intro bit_length_eqI) simp_all
  then have big: "53 < bit_length k" by simp
  have s: "971 = bit_length k - 53" by (simp add: bl)
  note rc = round53_cases [OF big s]
  define q where "q = k div 2 ^ 971"
  have kq: "k = q * 2 ^ 971 + k mod 2 ^ 971"
    unfolding q_def by (rule div_mult_mod_eq [symmetric])
  have "k < 2 ^ 53 * 2 ^ 971" using hi by (simp only: power_add [symmetric]) simp
  then have q53: "q < 2 ^ 53"
    unfolding q_def by (rule less_mult_imp_div_less)
  have e1: "(2::nat) ^ 1024 - 2 ^ 970 = (2 ^ 53 - 1) * 2 ^ 971 + 2 ^ 970"
    by simp
  have "(2 ^ 53 - 1) * 2 ^ 971 \<le> k" using lo unfolding e1 by simp
  then have "2 ^ 53 - 1 \<le> q"
    unfolding q_def by (simp only: less_eq_div_iff_mult_less_eq zero_less_power zero_less_numeral)
  then have q: "q = 2 ^ 53 - 1" using q53 by simp
  have "(2 ^ 53 - 1) * 2 ^ 971 + 2 ^ 970 \<le> q * 2 ^ 971 + k mod 2 ^ 971"
    using lo kq unfolding e1 by simp
  then have rem: "2 ^ 970 \<le> k mod 2 ^ 971"
    unfolding q by simp
  have oddq: "odd q" unfolding q by simp
  have "round53 k = (q + 1) * 2 ^ 971"
  proof (cases "2 ^ 970 < k mod 2 ^ 971")
    case True
    then have "2 ^ (971 - 1) < k mod 2 ^ 971" by simp
    from rc(4) [OF this] show ?thesis by (simp only: q_def)
  next
    case False
    then have eq: "k mod 2 ^ 971 = 2 ^ 970" using rem by simp
    have "\<not> bit_length k \<le> 53" using big by simp
    then show ?thesis
      using oddq eq by (simp add: round53_def Let_def bl q_def)
  qed
  also have "\<dots> = 2 ^ 1024" unfolding q by simp
  finally show ?thesis .
qed

lemma float_of_int_overflow_iff:
  "float_of_int n = Inl OverflowError \<longleftrightarrow> 2 ^ 1024 - 2 ^ 970 \<le> \<bar>n\<bar>"
proof
  assume "float_of_int n = Inl OverflowError"
  then have "\<not> (\<exists>d. float_of_int n = Inr d)" by simp
  then have "\<not> \<bar>n\<bar> < 2 ^ 1024 - 2 ^ 970"
    using float_of_int_no_overflow by blast
  then show "2 ^ 1024 - 2 ^ 970 \<le> \<bar>n\<bar>" by simp
next
  assume a: "2 ^ 1024 - 2 ^ 970 \<le> \<bar>n\<bar>"
  show "float_of_int n = Inl OverflowError"
  proof (cases "2 ^ 1024 \<le> \<bar>n\<bar>")
    case True
    then show ?thesis by (rule float_of_int_overflow)
  next
    case False
    have "2 ^ 1024 - 2 ^ 970 \<le> nat \<bar>n\<bar>"
      using a by (simp add: le_nat_iff of_nat_diff)
    moreover have "nat \<bar>n\<bar> < 2 ^ 1024"
      using False by (simp add: nat_less_iff)
    ultimately have "round53 (nat \<bar>n\<bar>) = 2 ^ 1024"
      by (rule round53_overflow_edge)
    then show ?thesis by (simp only: float_of_int_def Let_def order_refl if_True)
  qed
qed

lemma heal_overflow:
  assumes "h ! self = Player c k" and "0 < health c" and "k < 4"
    and "2 ^ 1024 - 2 ^ 970 \<le> \<bar>max_health c\<bar>"
  shows "heal self h = (Inl OverflowError, h)"
proof -
  have "float_of_int (max_health c) = Inl OverflowError"
    using assms(4) by (simp only: float_of_int_overflow_iff)
  then have "int_times_float (max_health c) HEAL_PERCENT = Inl OverflowError"
    by (simp only: int_times_float_def sum.case)
  then show ?thesis
    using assms(1-3) by (simp add: heal_def is_alive_def MAX_HEALS_def)
qed

section \<open>Facts about sequences of heals\<close>

lemma heal_err_heap: "fst (heal self h) = Inl e \<Longrightarrow> snd (heal self h) = h"
  by (auto simp: heal_def Let_def split: obj.splits if_splits sum.splits)

lemma heal_returns_iff:
  assumes "h ! self = Player c k" and "\<bar>max_health c\<bar> < 2 ^ 1024 - 2 ^ 970"
  shows "(\<exists>r. fst (heal self h) = Inr r) \<longleftrightarrow> is_alive (h ! self) \<and> k < MAX_HEALS"
proof (cases "0 < health c")
  case False
  then show ?thesis
    using heal_errors(1) [OF assms(1)] by (simp add: assms(1) is_alive_def)
next
  case alive: True
  show ?thesis
  proof (cases "k < 4")
    case True
    then show ?thesis
      using heal_no_overflow [OF assms(1) alive True assms(2)] alive
      by (auto simp: assms(1) is_alive_def MAX_HEALS_def)
  next
    case False
    then show ?thesis
      using heal_errors(2) [OF assms(1) alive] by (simp add: MAX_HEALS_def)
  qed
qed

lemma heal_returns:
  assumes "self < length h" and "h ! self = Player c k" and "fst (heal self h) = Inr r"
  shows "k < MAX_HEALS \<and> is_alive (h ! self) \<and>
         (\<exists>c'. snd (heal self h) ! self = Player c' (k + 1) \<and> max_health c' = max_health c)"
  using assms
  by (auto simp: heal_def Let_def is_alive_def split: if_splits sum.splits)

lemma player_frame:
  assumes "heals_used x = Some k" and "same_stats x (Player c j)"
  shows "\<exists>c'. x = Player c' k \<and> max_health c' = max_health c"
  using assms by (cases x) (simp_all add: same_stats_def)

lemma exec_player:
  assumes "self < length h" and "h ! self = Player c k"
  shows "\<exists>c'. fst (exec cl (h, g)) ! self = Player c' (k + int (heal_count self [cl] (h, g))) \<and>
              max_health c' = max_health c \<and> self < length (fst (exec cl (h, g))) \<and>
              (k \<le> MAX_HEALS \<longrightarrow> k + int (heal_count self [cl] (h, g)) \<le> MAX_HEALS)"
proof (cases cl)
  case (New cl' nm atk dfn mh dr)
  show ?thesis
    using assms by (auto simp: New new_def nth_append split: sum.splits)
next
  case (TakeDamage r d)
  show ?thesis
  proof (cases "r < length h")
    case True
    from take_damage_frame [OF assms(1), of r d]
    have "heals_used (snd (take_damage r d h) ! self) = Some k"
      and "same_stats (snd (take_damage r d h) ! self) (Player c k)"
      by (simp_all add: assms(2))
    from player_frame [OF this] show ?thesis
      using assms(1) True by (simp add: TakeDamage)
  next
    case False
    then show ?thesis using assms by (simp add: TakeDamage)
  qed
next
  case (Heal r)
  show ?thesis
  proof (cases "r = self")
    case True
    show ?thesis
    proof (cases "fst (heal self h)")
      case (Inl e)
      then have "snd (heal self h) = h" by (rule heal_err_heap)
      then show ?thesis using assms Inl by (simp add: Heal True)
    next
      case (Inr v)
      from heal_returns [OF assms Inr] show ?thesis
        using assms(1) Inr by (auto simp: Heal True)
    qed
  next
    case False
    then have "snd (heal r h) ! self = h ! self"
      using heal_frame [OF assms(1), of r] by simp
    then show ?thesis using assms False by (simp add: Heal)
  qed
next
  case (AttackTarget r v)
  show ?thesis
  proof (cases "r < length h")
    case True
    from attack_target_frame [OF assms(1), of r v g]
    have "heals_used (fst (snd (attack_target r v (h, g))) ! self) = Some k"
      and "same_stats (fst (snd (attack_target r v (h, g))) ! self) (Player c k)"
      by (simp_all add: assms(2))
    from player_frame [OF this] show ?thesis
      using assms(1) True by (simp add: AttackTarget)
  next
    case False
    then show ?thesis using assms by (simp add: AttackTarget)
  qed
qed

lemma run_player:
  assumes "self < length h" and "h ! self = Player c k"
  shows "\<exists>c'. fst (run cs (h, g)) ! self = Player c' (k + int (heal_count self cs (h, g))) \<and>
              max_health c' = max_health c \<and> self < length (fst (run cs (h, g))) \<and>
              (k \<le> MAX_HEALS \<longrightarrow> k + int (heal_count self cs (h, g)) \<le> MAX_HEALS)"
  using assms
proof (induction cs arbitrary: h g c k)
  case Nil
  then show ?case by simp
next
  case (Cons cl cs)
  obtain h1 g1 where ex: "exec cl (h, g) = (h1, g1)" by (cases "exec cl (h, g)")
  define j where "j = heal_count self [cl] (h, g)"
  from exec_player [OF Cons.prems, of cl g]
  obtain c1 where c1: "h1 ! self = Player c1 (k + int j)" "max_health c1 = max_health c"
    "self < length h1" "k \<le> MAX_HEALS \<longrightarrow> k + int j \<le> MAX_HEALS"
    by (auto simp: ex j_def)
  have cnt: "heal_count self (cl # cs) (h, g) = j + heal_count self cs (h1, g1)"
    by (simp add: j_def ex)
  have rn: "run (cl # cs) (h, g) = run cs (h1, g1)"
    by (simp add: ex)
  from Cons.IH [OF c1(3) c1(1), of g1] c1(2,4)
  show ?case
    unfolding rn cnt by (auto simp: add.assoc)
qed

lemma heal_in_a_row:
  assumes "self < length h" and "h ! self = Player c 0"
    and "is_alive (h ! self)" and "0 < max_health c"
    and "max_health c < 2 ^ 1024 - 2 ^ 970"
  shows "(\<forall>i<4. \<exists>r. fst (heal self (fst (run (replicate i (Heal self)) (h, g)))) = Inr r)
       \<and> fst (heal self (fst (run (replicate 4 (Heal self)) (h, g))))
           = Inl (ArgumentError ''no heals left'')
       \<and> (\<forall>h' c' k'. h' ! self = Player c' k' \<and> is_alive (h' ! self) \<and> MAX_HEALS \<le> k' \<longrightarrow>
             fst (heal self h') = Inl (ArgumentError ''no heals left''))
       \<and> (\<forall>h' c' k'. h' ! self = Player c' k' \<and> \<not> is_alive (h' ! self) \<longrightarrow>
             fst (heal self h') = Inl (ArgumentError ''dead player cannot heal''))
       \<and> (\<forall>h' c' k'. h' ! self = Player c' k' \<and> is_alive (h' ! self) \<and> k' < MAX_HEALS \<and>
             2 ^ 1024 - 2 ^ 970 \<le> max_health c' \<longrightarrow>
             fst (heal self h') = Inl OverflowError)"
proof (intro conjI allI impI)
  have alive: "0 < health c" using assms(2,3) by (simp add: is_alive_def)
  have mh: "0 < max_health c" by (rule assms(4))
  {
    fix i :: nat
    assume i: "i \<le> 4"
    then have "0 + int i \<le> 4" by simp
    from heal_steps [OF assms(1,2) alive mh assms(5) this, of g]
    have "\<exists>c'. fst (run (replicate i (Heal self)) (h, g)) ! self = Player c' (int i) \<and>
              0 < health c' \<and> max_health c' = max_health c"
      by auto
  }
  note steps = this
  show "\<exists>r. fst (heal self (fst (run (replicate i (Heal self)) (h, g)))) = Inr r" if "i < 4" for i
  proof -
    have "i \<le> 4" using that by simp
    from steps [OF this]
    obtain c' where c': "fst (run (replicate i (Heal self)) (h, g)) ! self = Player c' (int i)"
      "0 < health c'" "max_health c' = max_health c"
      by blast
    have "int i < 4" using that by simp
    moreover have "\<bar>max_health c'\<bar> < 2 ^ 1024 - 2 ^ 970"
      using mh assms(5) c'(3) by simp
    ultimately show ?thesis
      using heal_no_overflow [OF c'(1,2)] by auto
  qed
  show "fst (heal self (fst (run (replicate 4 (Heal self)) (h, g))))
           = Inl (ArgumentError ''no heals left'')"
  proof -
    have "(4::nat) \<le> 4" by simp
    from steps [OF this]
    obtain c' where c': "fst (run (replicate 4 (Heal self)) (h, g)) ! self = Player c' (int 4)"
      "0 < health c'"
      by blast
    show ?thesis
      using heal_errors(2) [OF c'(1) c'(2)] by simp
  qed
  show "fst (heal self h') = Inl (ArgumentError ''no heals left'')"
    if "h' ! self = Player c' k' \<and> is_alive (h' ! self) \<and> MAX_HEALS \<le> k'" for h' c' k'
    using that heal_errors(2) [of h' self c' k'] by (auto simp: is_alive_def MAX_HEALS_def)
  show "fst (heal self h') = Inl (ArgumentError ''dead player cannot heal'')"
    if "h' ! self = Player c' k' \<and> \<not> is_alive (h' ! self)" for h' c' k'
    using that heal_errors(1) [of h' self c' k'] by (auto simp: is_alive_def)
  show "fst (heal self h') = Inl OverflowError"
    if "h' ! self = Player c' k' \<and> is_alive (h' ! self) \<and> k' < MAX_HEALS \<and>
        2 ^ 1024 - 2 ^ 970 \<le> max_health c'" for h' c' k'
  proof -
    have "h' ! self = Player c' k'" "0 < health c'" "k' < 4"
      using that by (auto simp: is_alive_def MAX_HEALS_def)
    moreover have "2 ^ 1024 - 2 ^ 970 \<le> \<bar>max_health c'\<bar>"
      using that by linarith
    ultimately show ?thesis by (simp add: heal_overflow)
  qed
qed

lemma heal_small:
  assumes "h ! self = Player c k" and "0 < health c" and "k < 4" and "\<bar>max_health c\<bar> < 2 ^ 51"
    and "0 < max_health c"
    and "amount = (if 3 * max_health c div 10 \<le> 0 then 1 else 3 * max_health c div 10)"
    and "new_health = min (max_health c) (health c + amount)"
  shows "heal self h = (Inr (new_health - health c), h[self := Player (c\<lparr>health := new_health\<rparr>) (k + 1)])"
proof -
  obtain x where x: "int_times_float (max_health c) HEAL_PERCENT = Inr x"
    and pos: "0 < max_health c \<longrightarrow> int_of_float x = 3 * max_health c div 10"
    using heal_percent_small [OF assms(4)] by blast
  have am: "amount = (if int_of_float x \<le> 0 then 1 else int_of_float x)"
    using pos assms(5) by (simp add: assms(6))
  show ?thesis
    by (rule heal_player [OF assms(1-3) x am assms(7)])
qed

lemma hero_run:
  "run [Heal 0, TakeDamage 0 (PyInt 60), Heal 0, Heal 0, TakeDamage 0 (PyInt 1), Heal 0, Heal 0] (hero, \<lambda>i. 0)
     = ([Player \<lparr>name = ''Hero'', attack = 10, defense = 10, max_health = 100, health = 100, damage_range = (1, 6)\<rparr> 4], \<lambda>i. 0)
   \<and> heal_count 0 [Heal 0, TakeDamage 0 (PyInt 60), Heal 0, Heal 0, TakeDamage 0 (PyInt 1), Heal 0, Heal 0] (hero, \<lambda>i. 0) = 4"
proof -
  let ?p = "\<lambda>v k. [Player \<lparr>name = ''Hero'', attack = 10, defense = 10, max_health = 100, health = v, damage_range = (1, 6)\<rparr> k]"
  have h: "heal 0 (?p v k) = (Inr (min 100 (v + 30) - v), ?p (min 100 (v + 30)) (k + 1))"
    if "0 < v" "k < 4" for v k
    using heal_small [of "?p v k" 0 "\<lparr>name = ''Hero'', attack = 10, defense = 10, max_health = 100, health = v, damage_range = (1, 6)\<rparr>" k 30 "min 100 (v + 30)"] that
    by simp
  have e: "heal 0 (?p v 4) = (Inl (ArgumentError ''no heals left''), ?p v 4)" if "0 < v" for v
    using heal_errors(2) [of "?p v 4" 0 "\<lparr>name = ''Hero'', attack = 10, defense = 10, max_health = 100, health = v, damage_range = (1, 6)\<rparr>" 4] that
    by simp
  have h1: "heal 0 (?p 50 0) = (Inr 30, ?p 80 1)" using h [of 50 0] by simp
  have h2: "heal 0 (?p 20 1) = (Inr 30, ?p 50 2)" using h [of 20 1] by simp
  have h3: "heal 0 (?p 50 2) = (Inr 30, ?p 80 3)" using h [of 50 2] by simp
  have h4: "heal 0 (?p 79 3) = (Inr 21, ?p 100 4)" using h [of 79 3] by simp
  have h5: "heal 0 (?p 100 4) = (Inl (ArgumentError ''no heals left''), ?p 100 4)" using e [of 100] by simp
  show ?thesis
    by (simp add: hero_def take_damage_def h1 h2 h3 h4 h5)
qed

section \<open>The claims\<close>

text \<open>
  Claim C1. For every creature built by a constructor, \<open>0 \<le> health \<le> max_health\<close> holds
  right after construction, where \<open>health = max_health\<close>, and every sequence of
  constructions and calls of \<^verbatim>\<open>take_damage\<close>, \<^verbatim>\<open>heal\<close> and
  \<^verbatim>\<open>attack_target\<close>, raising or not, in any order and on any objects, keeps it for
  every object of the heap.
\<close>

theorem health_invariant:
  "(list_all health_ok h \<longrightarrow> list_all health_ok (fst (run calls (h, g))))
 \<and> list_all health_ok (fst (run calls ([], g)))
 \<and> (new k nm atk dfn mh dr h = (Inr r, h') \<longrightarrow>
      r < length h' \<and> class_of (h' ! r) = k \<and>
      0 < max_health (fields (h' ! r)) \<and>
      health (fields (h' ! r)) = max_health (fields (h' ! r)) \<and>
      health_ok (h' ! r))"
proof (intro conjI impI)
  show "list_all health_ok h \<Longrightarrow> list_all health_ok (fst (run calls (h, g)))"
    using run_inv [of "(h, g)" calls] by simp
  show "list_all health_ok (fst (run calls ([], g)))"
    using run_inv [of "([], g)" calls] by simp
  assume n: "new k nm atk dfn mh dr h = (Inr r, h')"
  from new_ok [OF n] have r: "r = length h" and len: "length h' = Suc (length h)"
    and cl: "class_of (h' ! r) = k" and v: "valid (h' ! r)"
    and full: "health (fields (h' ! r)) = max_health (fields (h' ! r))"
    by blast+
  show "r < length h'" by (simp only: r len lessI)
  show "class_of (h' ! r) = k" by (rule cl)
  show "0 < max_health (fields (h' ! r))" using v by (simp add: valid_def)
  show "health (fields (h' ! r)) = max_health (fields (h' ! r))" by (rule full)
  show "health_ok (h' ! r)" using v by (simp add: valid_def)
qed

theorem health_invariant_witness:
  "list_all health_ok []
 \<and> list_all health_ok (fst (run [New PlayerCls (PyStr ''Hero'') (PyInt 30) (PyInt 1) (PyInt 10) (PyTuple [PyInt 5, PyInt 5]),
                                  New MonsterCls (PyStr ''Orc'') (PyInt 1) (PyInt 1) (PyInt 5) (PyTuple [PyInt 1, PyInt 1]),
                                  AttackTarget 1 (PyRef 0), TakeDamage 0 (PyInt 3), Heal 0, AttackTarget 0 (PyRef 1)]
                                 ([], \<lambda>i. 4)))
 \<and> new PlayerCls (PyStr ''Hero'') (PyInt 30) (PyInt 1) (PyInt 10) (PyTuple [PyInt 5, PyInt 5]) []
     = (Inr 0, [Player \<lparr>name = ''Hero'', attack = 30, defense = 1, max_health = 10, health = 10, damage_range = (5, 5)\<rparr> 0])
 \<and> health_ok (Player \<lparr>name = ''Hero'', attack = 30, defense = 1, max_health = 10, health = 10, damage_range = (5, 5)\<rparr> 0)"
proof -
  have n: "new PlayerCls (PyStr ''Hero'') (PyInt 30) (PyInt 1) (PyInt 10) (PyTuple [PyInt 5, PyInt 5]) []
     = (Inr 0, [Player \<lparr>name = ''Hero'', attack = 30, defense = 1, max_health = 10, health = 10, damage_range = (5, 5)\<rparr> 0])"
    by (simp add: new_def Creature_init_def check_stat_def)
  show ?thesis
    using n
      health_invariant [of "[]" "[New PlayerCls (PyStr ''Hero'') (PyInt 30) (PyInt 1) (PyInt 10) (PyTuple [PyInt 5, PyInt 5]),
                                  New MonsterCls (PyStr ''Orc'') (PyInt 1) (PyInt 1) (PyInt 5) (PyTuple [PyInt 1, PyInt 1]),
                                  AttackTarget 1 (PyRef 0), TakeDamage 0 (PyInt 3), Heal 0, AttackTarget 0 (PyRef 1)]"
          "\<lambda>i. 4" PlayerCls "PyStr ''Hero''" "PyInt 30" "PyInt 1" "PyInt 10" "PyTuple [PyInt 5, PyInt 5]" 0
          "[Player \<lparr>name = ''Hero'', attack = 30, defense = 1, max_health = 10, health = 10, damage_range = (5, 5)\<rparr> 0]"]
    by simp
qed

text \<open>
  Claim C2. When attacker and defender are alive and their attack and defense are in
  \<open>[1, 30]\<close>, \<^verbatim>\<open>attack_target\<close> rolls exactly
  \<open>dice_count = max 1 (attack self - defense other + 1)\<close> dice, \<open>dice_count\<close> is in
  \<open>[1, 30]\<close> and every die is in \<open>[1, 6]\<close>; the attack succeeds if and only if a die shows
  5 or 6; then the damage is the next draw, in the attacker's damage range, it is applied
  with \<^verbatim>\<open>take_damage\<close> and \<open>(True, damage)\<close> is returned; otherwise \<open>(False, 0)\<close>
  is returned and the heap is the same.
\<close>

theorem attack_target_resolution:
  assumes "self < length h" and "t < length h"
    and "is_alive (h ! self)" and "is_alive (h ! t)"
    and "1 \<le> attack (fields (h ! self))" and "attack (fields (h ! self)) \<le> 30"
    and "1 \<le> defense (fields (h ! t))" and "defense (fields (h ! t)) \<le> 30"
    and "damage_range (fields (h ! self)) = (lo, hi)" and "1 \<le> lo" and "lo \<le> hi"
    and "dice_count = max 1 (attack (fields (h ! self)) - defense (fields (h ! t)) + 1)"
    and "rolls = map (\<lambda>i. 1 + int (g i mod 6)) [0..<nat dice_count]"
    and "d = lo + int (g (nat dice_count) mod nat (hi - lo + 1))"
  shows "1 \<le> dice_count \<and> dice_count \<le> 30
       \<and> roll_dice (nat dice_count) g = (Inr rolls, (advance ^^ nat dice_count) g)
       \<and> int (length rolls) = dice_count
       \<and> (\<forall>r \<in> set rolls. 1 \<le> r \<and> r \<le> 6)
       \<and> lo \<le> d \<and> d \<le> hi
       \<and> randint lo hi ((advance ^^ nat dice_count) g) = (Inr d, (advance ^^ (nat dice_count + 1)) g)
       \<and> attack_target self (PyRef t) (h, g) =
           (if \<exists>r \<in> set rolls. r = 5 \<or> r = 6
            then (Inr (True, d), snd (take_damage t (PyInt d) h), (advance ^^ (nat dice_count + 1)) g)
            else (Inr (False, 0), h, (advance ^^ nat dice_count) g))"
proof -
  let ?n = "nat dice_count"
  let ?g1 = "(advance ^^ ?n) g"
  have n: "1 \<le> dice_count \<and> dice_count \<le> 30"
    using assms(5-8,12) by auto
  have rd: "roll_dice ?n g = (Inr rolls, ?g1)"
    by (simp add: roll_dice_eq assms(13))
  have len: "int (length rolls) = dice_count"
    using n by (simp add: assms(13))
  have rng: "\<forall>r \<in> set rolls. 1 \<le> r \<and> r \<le> 6"
  proof
    fix r assume "r \<in> set rolls"
    then obtain i where "r = 1 + int (g i mod 6)"
      by (auto simp: assms(13))
    moreover have "g i mod 6 < 6" by simp
    ultimately show "1 \<le> r \<and> r \<le> 6" by linarith
  qed
  have g10: "?g1 0 = g ?n"
    by (simp add: advance_funpow)
  have ri: "randint lo hi ?g1 = (Inr d, advance ?g1) \<and> lo \<le> d \<and> d \<le> hi"
    using randint_range [OF assms(11), of ?g1] by (simp add: g10 assms(14))
  have d0: "0 \<le> d" using ri assms(10) by linarith
  have ex: "list_ex (\<lambda>r. 5 \<le> r) rolls \<longleftrightarrow> (\<exists>r \<in> set rolls. r = 5 \<or> r = 6)"
  proof -
    have "\<And>r. r \<in> set rolls \<Longrightarrow> (5 \<le> r) = (r = 5 \<or> r = 6)"
      using rng by force
    then show ?thesis by (auto simp: list_ex_iff)
  qed
  obtain h' where td: "take_damage t (PyInt d) h = (Inr (), h')"
    using take_damage_ok [OF d0] by blast
  have at: "attack_target self (PyRef t) (h, g) =
           (if \<exists>r \<in> set rolls. r = 5 \<or> r = 6
            then (Inr (True, d), snd (take_damage t (PyInt d) h), (advance ^^ (?n + 1)) g)
            else (Inr (False, 0), h, ?g1))"
  proof (cases "\<exists>r \<in> set rolls. r = 5 \<or> r = 6")
    case True
    then have "list_ex (\<lambda>r. 5 \<le> r) rolls" using ex by simp
    then show ?thesis
      using True assms(2-4) ri
      by (simp add: attack_target_def Let_def rd assms(9) assms(12) [symmetric] td)
  next
    case False
    then have "\<not> list_ex (\<lambda>r. 5 \<le> r) rolls" using ex by simp
    then show ?thesis
      using False assms(2-4)
      by (simp add: attack_target_def Let_def rd assms(12) [symmetric])
  qed
  show ?thesis
    using n rd len rng ri at by simp
qed

theorem attack_target_resolution_witness:
  "fst (attack_target 0 (PyRef 1) (duel, \<lambda>i. 4)) = Inr (True, 5)
   \<and> fst (snd (attack_target 0 (PyRef 1) (duel, \<lambda>i. 4))) = snd (take_damage 1 (PyInt 5) duel)
   \<and> fst (attack_target 0 (PyRef 1) (duel, \<lambda>i. 3)) = Inr (False, 0)
   \<and> fst (snd (attack_target 0 (PyRef 1) (duel, \<lambda>i. 3))) = duel"
  using attack_target_resolution [of 0 duel 1 5 5 1 "[5]" "\<lambda>i. 4" 5]
    attack_target_resolution [of 0 duel 1 5 5 1 "[4]" "\<lambda>i. 3" 5]
  by (simp add: duel_def is_alive_def)

text \<open>
  Claim C3, amended. For an alive player with heals left and \<open>max_health\<close> below
  \<open>2 ^ 51\<close> in magnitude, \<^verbatim>\<open>heal\<close> computes \<open>amount = \<lfloor>3 * max_health / 10\<rfloor>\<close>, raised
  to 1 when that is not positive, sets \<open>health\<close> to \<open>min max_health (health + amount)\<close>,
  counts the use, and returns the new health minus the old one. (The code multiplies in
  double precision; the theorem shows that below \<open>2 ^ 51\<close> the rounding never shows.)
\<close>

theorem heal_amount_exact:
  assumes "self < length h" and "h ! self = Player c k" and "is_alive (h ! self)"
    and "k < MAX_HEALS" and "\<bar>max_health c\<bar> < 2 ^ 51"
    and "amount = (if 3 * max_health c div 10 \<le> 0 then 1 else 3 * max_health c div 10)"
    and "new_health = min (max_health c) (health c + amount)"
  shows "heal self h = (Inr (new_health - health c), h[self := Player (c\<lparr>health := new_health\<rparr>) (k + 1)])
       \<and> health (fields (snd (heal self h) ! self)) = new_health
       \<and> fst (heal self h)
           = Inr (health (fields (snd (heal self h) ! self)) - health (fields (h ! self)))"
proof -
  obtain x where x: "int_times_float (max_health c) HEAL_PERCENT = Inr x"
    and pos: "0 < max_health c \<longrightarrow> int_of_float x = 3 * max_health c div 10"
    and neg: "max_health c \<le> 0 \<longrightarrow> int_of_float x \<le> 0"
    using heal_percent_small [OF assms(5)] by blast
  have am: "amount = (if int_of_float x \<le> 0 then 1 else int_of_float x)"
  proof (cases "0 < max_health c")
    case True
    then show ?thesis using pos by (simp add: assms(6))
  next
    case False
    then have "3 * max_health c div 10 \<le> 0"
      by linarith
    then show ?thesis using neg False by (simp add: assms(6))
  qed
  have alive: "0 < health c" using assms(2,3) by (simp add: is_alive_def)
  have k4: "k < 4" using assms(4) by (simp add: MAX_HEALS_def)
  have h: "heal self h = (Inr (new_health - health c), h[self := Player (c\<lparr>health := new_health\<rparr>) (k + 1)])"
    by (rule heal_player [OF assms(2) alive k4 x am assms(7)])
  show ?thesis
    using assms(1,2) by (simp add: h)
qed

theorem heal_amount_exact_witness:
  "0 < length hero \<and> is_alive (hero ! 0) \<and> (0::int) < MAX_HEALS
   \<and> heal 0 hero = (Inr 30, [Player \<lparr>name = ''Hero'', attack = 10, defense = 10, max_health = 100,
                                     health = 80, damage_range = (1, 6)\<rparr> 1])"
  using heal_amount_exact [of 0 hero "\<lparr>name = ''Hero'', attack = 10, defense = 10, max_health = 100,
      health = 50, damage_range = (1, 6)\<rparr>" 0 30 80]
  by (simp add: hero_def is_alive_def MAX_HEALS_def)

text \<open>
  Claim C3 as stated fails: the product is a double, not exact. For
  \<open>max_health = 9000000000000003\<close> the exact value is \<open>2700000000000000.9\<close> and the
  double nearest to the product is \<open>2700000000000001\<close>, so the player with 1 health ends
  with \<open>2700000000000002\<close> and not \<open>2700000000000001\<close>.
\<close>

theorem heal_amount_exact_counterexample:
  "\<not> (\<forall>h self c k. self < length h \<and> h ! self = Player c k \<and> is_alive (h ! self) \<and> k < MAX_HEALS \<longrightarrow>
        health (fields (snd (heal self h) ! self))
          = min (max_health c)
                (health c + (if 3 * max_health c div 10 \<le> 0 then 1 else 3 * max_health c div 10)))"
proof
  assume "\<forall>h self c k. self < length h \<and> h ! self = Player c k \<and> is_alive (h ! self) \<and> k < MAX_HEALS \<longrightarrow>
        health (fields (snd (heal self h) ! self))
          = min (max_health c)
                (health c + (if 3 * max_health c div 10 \<le> 0 then 1 else 3 * max_health c div 10))"
  then have "0 < length titan \<and> titan ! 0 = Player \<lparr>name = ''Hero'', attack = 10, defense = 10,
        max_health = 9000000000000003, health = 1, damage_range = (1, 6)\<rparr> 0 \<and> is_alive (titan ! 0) \<and> 0 < MAX_HEALS \<longrightarrow>
        health (fields (snd (heal 0 titan) ! 0))
          = min 9000000000000003 (1 + (if 3 * 9000000000000003 div 10 \<le> (0::int) then 1 else 3 * 9000000000000003 div 10))"
    by (drule_tac x = titan in spec, drule_tac x = 0 in spec,
        drule_tac x = "\<lparr>name = ''Hero'', attack = 10, defense = 10,
        max_health = 9000000000000003, health = 1, damage_range = (1, 6)\<rparr>" in spec, drule_tac x = 0 in spec) simp
  then show False
    by (simp add: heal_titan) (simp add: titan_def is_alive_def MAX_HEALS_def)
qed

text \<open>
  Claim C4. \<^verbatim>\<open>take_damage(amount)\<close> raises \<^verbatim>\<open>ArgumentError\<close> if and only if
  \<open>amount\<close> is not an \<^verbatim>\<open>int\<close> or is negative, and then changes nothing; otherwise it
  sets \<open>health\<close> to \<open>max 0 (health - amount)\<close> and changes no other attribute and no other
  object; with amount 0 the heap is unchanged, and an amount of at least the health
  leaves exactly 0.
\<close>

theorem take_damage_spec:
  assumes "self < length h"
  shows "((\<exists>m. fst (take_damage self amount h) = Inl (ArgumentError m))
            \<longleftrightarrow> (\<not> isinstance_int amount \<or> int_of amount < 0))
       \<and> (\<not> isinstance_int amount \<or> int_of amount < 0 \<longrightarrow> snd (take_damage self amount h) = h)
       \<and> (isinstance_int amount \<and> 0 \<le> int_of amount \<longrightarrow>
            fst (take_damage self amount h) = Inr () \<and>
            length (snd (take_damage self amount h)) = length h \<and>
            health (fields (snd (take_damage self amount h) ! self))
              = max 0 (health (fields (h ! self)) - int_of amount) \<and>
            same_stats (snd (take_damage self amount h) ! self) (h ! self) \<and>
            heals_used (snd (take_damage self amount h) ! self) = heals_used (h ! self) \<and>
            (\<forall>r < length h. r \<noteq> self \<longrightarrow> snd (take_damage self amount h) ! r = h ! r) \<and>
            (int_of amount = 0 \<and> 0 \<le> health (fields (h ! self)) \<longrightarrow>
               snd (take_damage self amount h) = h) \<and>
            (health (fields (h ! self)) \<le> int_of amount \<longrightarrow>
               health (fields (snd (take_damage self amount h) ! self)) = 0))"
  using assms
  by (auto simp: take_damage_def same_stats_def set_health_same list_update_same_conv)

theorem take_damage_spec_witness:
  "1 < length duel
   \<and> fst (take_damage 1 (PyInt 2) duel) = Inr ()
   \<and> health (fields (snd (take_damage 1 (PyInt 2) duel) ! 1)) = 1
   \<and> health (fields (snd (take_damage 1 (PyInt 7) duel) ! 1)) = 0
   \<and> snd (take_damage 1 (PyBool False) duel) = duel
   \<and> (\<exists>m. fst (take_damage 1 (PyInt (- 1)) duel) = Inl (ArgumentError m))
   \<and> (\<exists>m. fst (take_damage 1 (PyFloat (3, - 1)) duel) = Inl (ArgumentError m))"
proof -
  have len: "1 < length duel" by (simp add: duel_def)
  have hp: "health (fields (duel ! 1)) = 3" by (simp add: duel_def)
  show ?thesis
    using len hp take_damage_spec [OF len, of "PyInt 2"] take_damage_spec [OF len, of "PyInt 7"]
      take_damage_spec [OF len, of "PyBool False"] take_damage_spec [OF len, of "PyInt (- 1)"]
      take_damage_spec [OF len, of "PyFloat (3, - 1)"]
    by simp
qed

text \<open>
  Claim C5. \<^verbatim>\<open>attack_target(other)\<close> raises \<^verbatim>\<open>ArgumentError\<close> when \<open>other\<close>
  is not a creature, else when the attacker is dead, else when the defender is dead: the
  message tells which check fired, so the checks are made in this order. Whenever the call
  raises, the heap, and so the health of both participants, is unchanged.
\<close>

theorem attack_target_preconditions:
  "(\<not> isinstance_Creature h other \<longrightarrow>
      attack_target self other (h, g) = (Inl (ArgumentError ''other must be a Creature''), h, g))
 \<and> (isinstance_Creature h other \<and> \<not> is_alive (h ! self) \<longrightarrow>
      attack_target self other (h, g) = (Inl (ArgumentError ''dead creatures cannot attack''), h, g))
 \<and> (isinstance_Creature h other \<and> is_alive (h ! self) \<and> \<not> is_alive (h ! ref_of other) \<longrightarrow>
      attack_target self other (h, g) = (Inl (ArgumentError ''cannot attack a dead creature''), h, g))
 \<and> (\<forall>e. fst (attack_target self other (h, g)) = Inl e \<longrightarrow>
      fst (snd (attack_target self other (h, g))) = h)"
  using attack_target_err [of self other h g]
  by (simp add: attack_target_def)

theorem attack_target_preconditions_witness:
  "attack_target 0 PyNone (duel[0 := set_health 0 (duel ! 0)], \<lambda>i. 0)
     = (Inl (ArgumentError ''other must be a Creature''), duel[0 := set_health 0 (duel ! 0)], \<lambda>i. 0)
   \<and> attack_target 0 (PyRef 1) (duel[0 := set_health 0 (duel ! 0), 1 := set_health 0 (duel ! 1)], \<lambda>i. 0)
     = (Inl (ArgumentError ''dead creatures cannot attack''),
        duel[0 := set_health 0 (duel ! 0), 1 := set_health 0 (duel ! 1)], \<lambda>i. 0)
   \<and> attack_target 0 (PyRef 1) (duel[1 := set_health 0 (duel ! 1)], \<lambda>i. 0)
     = (Inl (ArgumentError ''cannot attack a dead creature''), duel[1 := set_health 0 (duel ! 1)], \<lambda>i. 0)"
  using attack_target_preconditions [of "duel[0 := set_health 0 (duel ! 0)]" PyNone 0 "\<lambda>i. 0"]
    attack_target_preconditions
      [of "duel[0 := set_health 0 (duel ! 0), 1 := set_health 0 (duel ! 1)]" "PyRef 1" 0 "\<lambda>i. 0"]
    attack_target_preconditions [of "duel[1 := set_health 0 (duel ! 1)]" "PyRef 1" 0 "\<lambda>i. 0"]
  by (simp add: duel_def is_alive_def)

text \<open>
  Claim C6, amended. For a player with \<open>0 < max_health < 2 ^ 1024 - 2 ^ 970\<close> (so that
  \<open>max_health\<close> converts to a double), \<^verbatim>\<open>heal\<close> returns if and only if the player is
  alive and \<^verbatim>\<open>_heals_used\<close> is below \<open>MAX_HEALS\<close>, and a call that returns adds 1 to
  \<^verbatim>\<open>_heals_used\<close> and leaves the player alive. After any sequence of constructions
  and calls of \<^verbatim>\<open>take_damage\<close>, \<^verbatim>\<open>heal\<close> and \<^verbatim>\<open>attack_target\<close>, on any
  objects, \<^verbatim>\<open>_heals_used\<close> has grown by the number of calls of \<^verbatim>\<open>heal\<close> on the
  player that returned, and it never passes \<open>MAX_HEALS\<close>: so, from a new player, the calls
  of \<^verbatim>\<open>heal\<close> made while the player is alive return exactly until four have returned,
  whatever comes in between, and four calls in a row return. The next call raises
  \<^verbatim>\<open>ArgumentError\<close> whatever the health, and \<^verbatim>\<open>heal\<close> on a dead player raises
  \<^verbatim>\<open>ArgumentError\<close>. From \<open>max_health = 2 ^ 1024 - 2 ^ 970\<close> on, \<^verbatim>\<open>heal\<close> of an
  alive player with heals left raises \<^verbatim>\<open>OverflowError\<close>.
\<close>

theorem heal_limit:
  assumes "self < length h" and "h ! self = Player c k"
    and "0 < max_health c" and "max_health c < 2 ^ 1024 - 2 ^ 970"
  shows "((\<exists>r. fst (heal self h) = Inr r) \<longleftrightarrow> is_alive (h ! self) \<and> k < MAX_HEALS)
       \<and> (is_alive (h ! self) \<and> k < MAX_HEALS \<longrightarrow>
             heals_used (snd (heal self h) ! self) = Some (k + 1) \<and>
             is_alive (snd (heal self h) ! self))
       \<and> heals_used (fst (run cs (h, g)) ! self) = Some (k + int (heal_count self cs (h, g)))
       \<and> (k \<le> MAX_HEALS \<longrightarrow> k + int (heal_count self cs (h, g)) \<le> MAX_HEALS)
       \<and> ((\<exists>r. fst (heal self (fst (run cs (h, g)))) = Inr r) \<longleftrightarrow>
             is_alive (fst (run cs (h, g)) ! self) \<and>
             k + int (heal_count self cs (h, g)) < MAX_HEALS)
       \<and> (k = 0 \<and> is_alive (h ! self) \<longrightarrow>
             (\<forall>i<4. \<exists>r. fst (heal self (fst (run (replicate i (Heal self)) (h, g)))) = Inr r) \<and>
             fst (heal self (fst (run (replicate 4 (Heal self)) (h, g))))
               = Inl (ArgumentError ''no heals left''))
       \<and> (\<forall>h' c' k'. h' ! self = Player c' k' \<and> is_alive (h' ! self) \<and> MAX_HEALS \<le> k' \<longrightarrow>
             fst (heal self h') = Inl (ArgumentError ''no heals left''))
       \<and> (\<forall>h' c' k'. h' ! self = Player c' k' \<and> \<not> is_alive (h' ! self) \<longrightarrow>
             fst (heal self h') = Inl (ArgumentError ''dead player cannot heal''))
       \<and> (\<forall>h' c' k'. h' ! self = Player c' k' \<and> is_alive (h' ! self) \<and> k' < MAX_HEALS \<and>
             2 ^ 1024 - 2 ^ 970 \<le> max_health c' \<longrightarrow>
             fst (heal self h') = Inl OverflowError)"
proof -
  have ab: "\<bar>max_health c\<bar> < 2 ^ 1024 - 2 ^ 970" using assms(3,4) by simp
  have one: "(\<exists>r. fst (heal self h) = Inr r) \<longleftrightarrow> is_alive (h ! self) \<and> k < MAX_HEALS"
    by (rule heal_returns_iff [OF assms(2) ab])
  have two: "heals_used (snd (heal self h) ! self) = Some (k + 1) \<and> is_alive (snd (heal self h) ! self)"
    if "is_alive (h ! self) \<and> k < MAX_HEALS"
  proof -
    have alive: "0 < health c" and k4: "k < 4"
      using that by (simp_all add: assms(2) is_alive_def MAX_HEALS_def)
    obtain amount where "1 \<le> amount"
      and "heal self h = (Inr (min (max_health c) (health c + amount) - health c),
               h[self := Player (c\<lparr>health := min (max_health c) (health c + amount)\<rparr>) (k + 1)])"
      using heal_no_overflow [OF assms(2) alive k4 ab] by blast
    then show ?thesis
      using assms(1,3) alive by (simp add: is_alive_def)
  qed
  obtain c' where c': "fst (run cs (h, g)) ! self = Player c' (k + int (heal_count self cs (h, g)))"
    "max_health c' = max_health c"
    and le: "k \<le> MAX_HEALS \<longrightarrow> k + int (heal_count self cs (h, g)) \<le> MAX_HEALS"
    using run_player [OF assms(1,2), of cs g] by blast
  have three: "heals_used (fst (run cs (h, g)) ! self) = Some (k + int (heal_count self cs (h, g)))"
    by (simp add: c'(1))
  have ab': "\<bar>max_health c'\<bar> < 2 ^ 1024 - 2 ^ 970" using ab by (simp only: c'(2))
  have five: "(\<exists>r. fst (heal self (fst (run cs (h, g)))) = Inr r) \<longleftrightarrow>
             is_alive (fst (run cs (h, g)) ! self) \<and>
             k + int (heal_count self cs (h, g)) < MAX_HEALS"
    by (rule heal_returns_iff [OF c'(1) ab'])
  have six: "(\<forall>i<4. \<exists>r. fst (heal self (fst (run (replicate i (Heal self)) (h, g)))) = Inr r) \<and>
             fst (heal self (fst (run (replicate 4 (Heal self)) (h, g))))
               = Inl (ArgumentError ''no heals left'')"
    if "k = 0 \<and> is_alive (h ! self)"
  proof -
    have k0: "k = 0" and al: "is_alive (h ! self)" using that by blast+
    have p: "h ! self = Player c 0" "is_alive (h ! self)"
      using assms(2) al by (simp_all only: k0)
    from heal_in_a_row [OF assms(1) p assms(3,4), of g] show ?thesis by blast
  qed
  have rest: "(\<forall>h' c' k'. h' ! self = Player c' k' \<and> is_alive (h' ! self) \<and> MAX_HEALS \<le> k' \<longrightarrow>
             fst (heal self h') = Inl (ArgumentError ''no heals left''))
       \<and> (\<forall>h' c' k'. h' ! self = Player c' k' \<and> \<not> is_alive (h' ! self) \<longrightarrow>
             fst (heal self h') = Inl (ArgumentError ''dead player cannot heal''))
       \<and> (\<forall>h' c' k'. h' ! self = Player c' k' \<and> is_alive (h' ! self) \<and> k' < MAX_HEALS \<and>
             2 ^ 1024 - 2 ^ 970 \<le> max_health c' \<longrightarrow>
             fst (heal self h') = Inl OverflowError)"
  proof (intro conjI allI impI)
    fix h' c' k'
    show "fst (heal self h') = Inl (ArgumentError ''no heals left'')"
      if "h' ! self = Player c' k' \<and> is_alive (h' ! self) \<and> MAX_HEALS \<le> k'"
      using that heal_errors(2) [of h' self c' k'] by (auto simp: is_alive_def MAX_HEALS_def)
    show "fst (heal self h') = Inl (ArgumentError ''dead player cannot heal'')"
      if "h' ! self = Player c' k' \<and> \<not> is_alive (h' ! self)"
      using that heal_errors(1) [of h' self c' k'] by (auto simp: is_alive_def)
    show "fst (heal self h') = Inl OverflowError"
      if "h' ! self = Player c' k' \<and> is_alive (h' ! self) \<and> k' < MAX_HEALS \<and>
          2 ^ 1024 - 2 ^ 970 \<le> max_health c'"
    proof -
      have "h' ! self = Player c' k'" "0 < health c'" "k' < 4"
        using that by (auto simp: is_alive_def MAX_HEALS_def)
      moreover have "2 ^ 1024 - 2 ^ 970 \<le> \<bar>max_health c'\<bar>"
        using that by linarith
      ultimately show ?thesis by (simp add: heal_overflow)
    qed
  qed
  show ?thesis
    using one two three le five six rest by blast
qed

theorem heal_limit_witness:
  "0 < length hero \<and> is_alive (hero ! 0)
   \<and> (\<exists>r. fst (heal 0 hero) = Inr r)
   \<and> heals_used (snd (heal 0 hero) ! 0) = Some 1
   \<and> heal_count 0 [Heal 0, TakeDamage 0 (PyInt 60), Heal 0, Heal 0, TakeDamage 0 (PyInt 1), Heal 0, Heal 0]
        (hero, \<lambda>i. 0) = 4
   \<and> heals_used (fst (run [Heal 0, TakeDamage 0 (PyInt 60), Heal 0, Heal 0, TakeDamage 0 (PyInt 1), Heal 0, Heal 0]
        (hero, \<lambda>i. 0)) ! 0) = Some 4
   \<and> \<not> (\<exists>r. fst (heal 0 (fst (run [Heal 0, TakeDamage 0 (PyInt 60), Heal 0, Heal 0, TakeDamage 0 (PyInt 1), Heal 0, Heal 0]
        (hero, \<lambda>i. 0)))) = Inr r)
   \<and> (\<exists>r. fst (heal 0 (fst (run (replicate 3 (Heal 0)) (hero, \<lambda>i. 0)))) = Inr r)
   \<and> fst (heal 0 (fst (run (replicate 4 (Heal 0)) (hero, \<lambda>i. 0)))) = Inl (ArgumentError ''no heals left'')
   \<and> fst (heal 0 (hero[0 := set_health 0 (hero ! 0)])) = Inl (ArgumentError ''dead player cannot heal'')"
proof -
  let ?cs = "[Heal 0, TakeDamage 0 (PyInt 60), Heal 0, Heal 0, TakeDamage 0 (PyInt 1), Heal 0, Heal 0]"
  have a: "0 < length hero"
    "hero ! 0 = Player \<lparr>name = ''Hero'', attack = 10, defense = 10, max_health = 100, health = 50, damage_range = (1, 6)\<rparr> 0"
    "0 < max_health \<lparr>name = ''Hero'', attack = 10, defense = 10, max_health = 100, health = 50, damage_range = (1, 6)\<rparr>"
    "max_health \<lparr>name = ''Hero'', attack = 10, defense = 10, max_health = 100, health = 50, damage_range = (1, 6)\<rparr> < 2 ^ 1024 - 2 ^ 970"
    by (simp_all add: hero_def)
  have al: "is_alive (hero ! 0)" and k: "(0::int) < MAX_HEALS"
    by (simp_all add: hero_def is_alive_def MAX_HEALS_def)
  note t = heal_limit [OF a, of ?cs "\<lambda>i. 0"]
  note tA = t [THEN conjunct1]
  note tB = t [THEN conjunct2, THEN conjunct1]
  note tC = t [THEN conjunct2, THEN conjunct2, THEN conjunct1]
  note tE = t [THEN conjunct2, THEN conjunct2, THEN conjunct2, THEN conjunct2, THEN conjunct1]
  note tF = t [THEN conjunct2, THEN conjunct2, THEN conjunct2, THEN conjunct2, THEN conjunct2,
               THEN conjunct1]
  note tH = t [THEN conjunct2, THEN conjunct2, THEN conjunct2, THEN conjunct2, THEN conjunct2,
               THEN conjunct2, THEN conjunct2, THEN conjunct1]
  have cnt: "heal_count 0 ?cs (hero, \<lambda>i. 0) = 4"
    by (rule hero_run [THEN conjunct2])
  have ak: "is_alive (hero ! 0) \<and> 0 < MAX_HEALS" using al k by (rule conjI)
  have first: "\<exists>r. fst (heal 0 hero) = Inr r"
    using ak by (simp only: tA)
  have used: "heals_used (snd (heal 0 hero) ! 0) = Some 1"
    using tB [rule_format, OF ak] by simp
  have used4: "heals_used (fst (run ?cs (hero, \<lambda>i. 0)) ! 0) = Some 4"
    using tC unfolding cnt by simp
  have "\<not> (0 + int 4 < MAX_HEALS)" by (simp add: MAX_HEALS_def)
  then have no: "\<not> (\<exists>r. fst (heal 0 (fst (run ?cs (hero, \<lambda>i. 0)))) = Inr r)"
    unfolding tE cnt by blast
  have k0: "(0::int) = 0 \<and> is_alive (hero ! 0)" using al by simp
  note row = tF [rule_format, OF k0]
  have "(3::nat) < 4" by simp
  from row [THEN conjunct1, rule_format, OF this]
  have fourth: "\<exists>r. fst (heal 0 (fst (run (replicate 3 (Heal 0)) (hero, \<lambda>i. 0)))) = Inr r" .
  have fifth: "fst (heal 0 (fst (run (replicate 4 (Heal 0)) (hero, \<lambda>i. 0)))) = Inl (ArgumentError ''no heals left'')"
    by (rule row [THEN conjunct2])
  have d: "hero[0 := set_health 0 (hero ! 0)] ! 0 = Player \<lparr>name = ''Hero'', attack = 10, defense = 10, max_health = 100, health = 0, damage_range = (1, 6)\<rparr> 0
      \<and> \<not> is_alive (hero[0 := set_health 0 (hero ! 0)] ! 0)"
    by (simp add: hero_def is_alive_def)
  have dead: "fst (heal 0 (hero[0 := set_health 0 (hero ! 0)])) = Inl (ArgumentError ''dead player cannot heal'')"
    by (rule tH [rule_format, OF d])
  show ?thesis
    by (intro conjI a(1) al first used cnt used4 no fourth fifth dead)
qed

text \<open>
  Claim C6 as stated fails: for a valid, alive player with \<open>max_health = 2 ^ 1024\<close> the
  first call of \<^verbatim>\<open>heal\<close> raises \<^verbatim>\<open>OverflowError\<close>, since
  \<^verbatim>\<open>max_health * 0.3\<close> cannot convert \<open>max_health\<close> to a double.
\<close>

theorem heal_limit_counterexample:
  "\<not> (\<forall>h self c. self < length h \<and> h ! self = Player c 0 \<and> valid (h ! self) \<and> is_alive (h ! self) \<longrightarrow>
        (\<exists>r. fst (heal self h) = Inr r))"
proof
  assume "\<forall>h self c. self < length h \<and> h ! self = Player c 0 \<and> valid (h ! self) \<and> is_alive (h ! self) \<longrightarrow>
        (\<exists>r. fst (heal self h) = Inr r)"
  then have "0 < length colossus \<and> colossus ! 0 = Player \<lparr>name = ''Hero'', attack = 10, defense = 10,
       max_health = 2 ^ 1024, health = 2 ^ 1024, damage_range = (1, 6)\<rparr> 0 \<and> valid (colossus ! 0) \<and> is_alive (colossus ! 0) \<longrightarrow>
        (\<exists>r. fst (heal 0 colossus) = Inr r)"
    by blast
  moreover have "0 < length colossus \<and> colossus ! 0 = Player \<lparr>name = ''Hero'', attack = 10, defense = 10,
       max_health = 2 ^ 1024, health = 2 ^ 1024, damage_range = (1, 6)\<rparr> 0 \<and> valid (colossus ! 0) \<and> is_alive (colossus ! 0)"
    by (simp add: colossus_def valid_def health_ok_def is_alive_def)
  ultimately have "\<exists>r. fst (heal 0 colossus) = Inr r"
    by blast
  then show False
    by (simp add: heal_colossus)
qed

text \<open>
  Claim C7, amended. For an alive player at full health with heals left and
  \<open>max_health < 2 ^ 1024 - 2 ^ 970\<close>, \<^verbatim>\<open>heal\<close> returns 0, leaves the health as it
  was and adds 1 to \<^verbatim>\<open>_heals_used\<close>; and every call of \<^verbatim>\<open>heal\<close> that returns
  adds exactly 1 to \<^verbatim>\<open>_heals_used\<close>, whatever it restored.
\<close>

theorem heal_full_health:
  "(self < length h \<and> h ! self = Player c k \<and> is_alive (h ! self) \<and> health c = max_health c \<and>
      k < MAX_HEALS \<and> max_health c < 2 ^ 1024 - 2 ^ 970 \<longrightarrow>
      heal self h = (Inr 0, h[self := Player c (k + 1)]))
 \<and> (self < length h \<and> h ! self = Player c k \<and> heal self h = (Inr r, h') \<longrightarrow>
      heals_used (h' ! self) = Some (k + 1))"
proof (intro conjI impI)
  assume a: "self < length h \<and> h ! self = Player c k \<and> is_alive (h ! self) \<and> health c = max_health c \<and>
      k < MAX_HEALS \<and> max_health c < 2 ^ 1024 - 2 ^ 970"
  then have hs: "h ! self = Player c k" and al: "is_alive (h ! self)" and km: "k < MAX_HEALS"
    and full: "health c = max_health c"
    by blast+
  have alive: "0 < health c" using al by (simp add: hs is_alive_def)
  have k4: "k < 4" using km by (simp add: MAX_HEALS_def)
  have "max_health c < 2 ^ 1024 - 2 ^ 970" using a by blast
  then have "\<bar>max_health c\<bar> < 2 ^ 1024 - 2 ^ 970" using alive full by simp
  from heal_no_overflow [OF _ alive k4 this, of h self] a
  obtain amount where am: "1 \<le> amount"
    and hl: "heal self h = (Inr (min (max_health c) (health c + amount) - health c),
               h[self := Player (c\<lparr>health := min (max_health c) (health c + amount)\<rparr>) (k + 1)])"
    by blast
  have "min (max_health c) (health c + amount) = health c" using am full by simp
  then show "heal self h = (Inr 0, h[self := Player c (k + 1)])"
    by (simp add: hl)
next
  assume "self < length h \<and> h ! self = Player c k \<and> heal self h = (Inr r, h')"
  then show "heals_used (h' ! self) = Some (k + 1)"
    using heal_increments by blast
qed

theorem heal_full_health_witness:
  "heal 0 (hero[0 := set_health 100 (hero ! 0)])
     = (Inr 0, [Player \<lparr>name = ''Hero'', attack = 10, defense = 10, max_health = 100, health = 100, damage_range = (1, 6)\<rparr> 1])
   \<and> heals_used (snd (heal 0 (hero[0 := set_health 100 (hero ! 0)])) ! 0) = Some 1"
proof -
  have h: "heal 0 (hero[0 := set_health 100 (hero ! 0)])
     = (Inr 0, [Player \<lparr>name = ''Hero'', attack = 10, defense = 10, max_health = 100, health = 100, damage_range = (1, 6)\<rparr> 1])"
    using heal_full_health [of 0 "hero[0 := set_health 100 (hero ! 0)]"
      "\<lparr>name = ''Hero'', attack = 10, defense = 10, max_health = 100, health = 100, damage_range = (1, 6)\<rparr>" 0]
    by (simp add: hero_def is_alive_def MAX_HEALS_def)
  show ?thesis
    using h heal_full_health [of 0 "hero[0 := set_health 100 (hero ! 0)]"
      "\<lparr>name = ''Hero'', attack = 10, defense = 10, max_health = 100, health = 100, damage_range = (1, 6)\<rparr>" 0
      0 "[Player \<lparr>name = ''Hero'', attack = 10, defense = 10, max_health = 100, health = 100, damage_range = (1, 6)\<rparr> 1]"]
    by (simp add: hero_def)
qed

text \<open>
  Claim C7 as stated fails: for a valid player at full health with
  \<open>max_health = 2 ^ 1024\<close>, \<^verbatim>\<open>heal\<close> raises \<^verbatim>\<open>OverflowError\<close> and returns
  nothing.
\<close>

theorem heal_full_health_counterexample:
  "\<not> (\<forall>h self c k. self < length h \<and> h ! self = Player c k \<and> valid (h ! self) \<and> is_alive (h ! self) \<and>
        health c = max_health c \<and> k < MAX_HEALS \<longrightarrow>
        fst (heal self h) = Inr 0 \<and> heals_used (snd (heal self h) ! self) = Some (k + 1))"
proof
  assume "\<forall>h self c k. self < length h \<and> h ! self = Player c k \<and> valid (h ! self) \<and> is_alive (h ! self) \<and>
        health c = max_health c \<and> k < MAX_HEALS \<longrightarrow>
        fst (heal self h) = Inr 0 \<and> heals_used (snd (heal self h) ! self) = Some (k + 1)"
  then have "0 < length colossus \<and> colossus ! 0 = Player \<lparr>name = ''Hero'', attack = 10, defense = 10,
       max_health = 2 ^ 1024, health = 2 ^ 1024, damage_range = (1, 6)\<rparr> 0 \<and> valid (colossus ! 0) \<and> is_alive (colossus ! 0) \<and>
       health \<lparr>name = ''Hero'', attack = 10, defense = 10,
       max_health = 2 ^ 1024, health = 2 ^ 1024, damage_range = (1, 6)\<rparr> = max_health \<lparr>name = ''Hero'', attack = 10, defense = 10,
       max_health = 2 ^ 1024, health = 2 ^ 1024, damage_range = (1, 6)\<rparr> \<and> 0 < MAX_HEALS \<longrightarrow>
        fst (heal 0 colossus) = Inr 0 \<and> heals_used (snd (heal 0 colossus) ! 0) = Some (0 + 1)"
    by blast
  moreover have "0 < length colossus \<and> colossus ! 0 = Player \<lparr>name = ''Hero'', attack = 10, defense = 10,
       max_health = 2 ^ 1024, health = 2 ^ 1024, damage_range = (1, 6)\<rparr> 0 \<and> valid (colossus ! 0) \<and> is_alive (colossus ! 0)
       \<and> health \<lparr>name = ''Hero'', attack = 10, defense = 10,
       max_health = 2 ^ 1024, health = 2 ^ 1024, damage_range = (1, 6)\<rparr> = max_health \<lparr>name = ''Hero'', attack = 10, defense = 10,
       max_health = 2 ^ 1024, health = 2 ^ 1024, damage_range = (1, 6)\<rparr> \<and> (0::int) < MAX_HEALS"
    by (simp add: colossus_def valid_def health_ok_def is_alive_def MAX_HEALS_def)
  ultimately have "fst (heal 0 colossus) = Inr 0"
    by blast
  then show False
    by (simp add: heal_colossus)
qed

text \<open>
  Claim C8, amended. Every operation keeps the class, \<open>name\<close>, \<open>attack\<close>, \<open>defense\<close>,
  \<open>max_health\<close> and \<open>damage_range\<close> of every object; \<^verbatim>\<open>take_damage\<close> and
  \<^verbatim>\<open>heal\<close> change no object but \<open>self\<close>, and \<^verbatim>\<open>take_damage\<close> and
  \<^verbatim>\<open>attack_target\<close> keep every \<^verbatim>\<open>_heals_used\<close>; \<^verbatim>\<open>attack_target\<close>
  changes no object but its target, so it leaves the attacker as it was unless the
  attacker is its own target; a missed attack returns \<open>(False, 0)\<close> and leaves the heap
  as it was.
\<close>

theorem frame_conditions:
  "(length (snd (take_damage self v h)) = length h \<and>
    (\<forall>r < length h.
        same_stats (snd (take_damage self v h) ! r) (h ! r) \<and>
        heals_used (snd (take_damage self v h) ! r) = heals_used (h ! r) \<and>
        (r \<noteq> self \<longrightarrow> snd (take_damage self v h) ! r = h ! r)))
 \<and> (length (snd (heal self h)) = length h \<and>
    (\<forall>r < length h.
        same_stats (snd (heal self h) ! r) (h ! r) \<and>
        (r \<noteq> self \<longrightarrow> snd (heal self h) ! r = h ! r)))
 \<and> (length (fst (snd (attack_target self other (h, g)))) = length h \<and>
    (\<forall>r < length h.
        same_stats (fst (snd (attack_target self other (h, g))) ! r) (h ! r) \<and>
        heals_used (fst (snd (attack_target self other (h, g))) ! r) = heals_used (h ! r) \<and>
        (r \<noteq> ref_of other \<longrightarrow> fst (snd (attack_target self other (h, g))) ! r = h ! r)) \<and>
    (\<forall>d. fst (attack_target self other (h, g)) = Inr (False, d) \<longrightarrow>
        d = 0 \<and> fst (snd (attack_target self other (h, g))) = h))"
  using take_damage_frame [of _ h self v] heal_frame [of _ h self]
        attack_target_frame [of _ h self other g] attack_target_miss [of self other h g]
  by simp

theorem frame_conditions_witness:
  "same_stats (fst (snd (attack_target 0 (PyRef 1) (duel, \<lambda>i. 4))) ! 1) (duel ! 1)
   \<and> fst (snd (attack_target 0 (PyRef 1) (duel, \<lambda>i. 4))) ! 0 = duel ! 0
   \<and> fst (snd (attack_target 0 (PyRef 1) (duel, \<lambda>i. 3))) = duel"
proof -
  have len: "0 < length duel \<and> 1 < length duel" by (simp add: duel_def)
  have miss: "fst (attack_target 0 (PyRef 1) (duel, \<lambda>i. 3)) = Inr (False, 0)"
    by (simp add: attack_target_def duel_def is_alive_def roll_d6_def randint_def)
  show ?thesis
    using len miss frame_conditions [of 0 "PyInt 0" duel "PyRef 1" "\<lambda>i. 4"]
      frame_conditions [of 0 "PyInt 0" duel "PyRef 1" "\<lambda>i. 3"]
    by simp
qed

text \<open>
  Claim C8 as stated fails: a creature may attack itself, and a hit then lowers the health
  of the attacker.
\<close>

theorem attacker_unchanged_counterexample:
  "\<not> (\<forall>self other h g. self < length h \<longrightarrow>
        fst (snd (attack_target self other (h, g))) ! self = h ! self)"
proof
  assume "\<forall>self other h g. self < length h \<longrightarrow>
        fst (snd (attack_target self other (h, g))) ! self = h ! self"
  then have "0 < length duel \<longrightarrow> fst (snd (attack_target 0 (PyRef 0) (duel, \<lambda>i. 4))) ! 0 = duel ! 0"
    by blast
  then show False
    by (simp add: attack_target_def duel_def is_alive_def roll_d6_def randint_def take_damage_def)
qed

text \<open>
  Claim C9. For a creature with \<open>0 \<le> health \<le> max_health\<close>, calls of
  \<^verbatim>\<open>take_damage\<close> with non-negative \<^verbatim>\<open>int\<close> amounts that sum to
  \<open>max_health\<close> leave it with \<open>health = 0\<close> and not alive.
\<close>

theorem take_damage_to_zero:
  assumes "self < length h" and "health_ok (h ! self)"
    and "\<forall>d \<in> set ds. isinstance_int d \<and> 0 \<le> int_of d"
    and "sum_list (map int_of ds) = max_health (fields (h ! self))"
  shows "health (fields (fst (run (map (TakeDamage self) ds) (h, g)) ! self)) = 0
       \<and> \<not> is_alive (fst (run (map (TakeDamage self) ds) (h, g)) ! self)"
proof -
  have "0 \<le> health (fields (h ! self))" and le: "health (fields (h ! self)) \<le> max_health (fields (h ! self))"
    using assms(2) by (simp_all add: health_ok_def)
  from take_damages_run [OF assms(1) this(1) assms(3), of g]
  have "health (fields (fst (run (map (TakeDamage self) ds) (h, g)) ! self))
           = max 0 (health (fields (h ! self)) - sum_list (map int_of ds))"
    by simp
  then have "health (fields (fst (run (map (TakeDamage self) ds) (h, g)) ! self)) = 0"
    using le assms(4) by simp
  then show ?thesis by (simp add: is_alive_def)
qed

theorem take_damage_to_zero_witness:
  "0 < length duel \<and> health_ok (duel ! 0)
   \<and> sum_list (map int_of [PyInt 4, PyInt 0, PyBool True, PyInt 5]) = max_health (fields (duel ! 0))
   \<and> health (fields (fst (run (map (TakeDamage 0) [PyInt 4, PyInt 0, PyBool True, PyInt 5]) (duel, \<lambda>i. 0)) ! 0)) = 0
   \<and> \<not> is_alive (fst (run (map (TakeDamage 0) [PyInt 4, PyInt 0, PyBool True, PyInt 5]) (duel, \<lambda>i. 0)) ! 0)"
proof -
  have a: "0 < length duel" "health_ok (duel ! 0)"
    "\<forall>d \<in> set [PyInt 4, PyInt 0, PyBool True, PyInt 5]. isinstance_int d \<and> 0 \<le> int_of d"
    "sum_list (map int_of [PyInt 4, PyInt 0, PyBool True, PyInt 5]) = max_health (fields (duel ! 0))"
    by (simp_all add: duel_def health_ok_def)
  show ?thesis
    using a(1,2,4) take_damage_to_zero [OF a, of "\<lambda>i. 0"] by simp
qed

text \<open>
  Claim C10. On a successful \<^verbatim>\<open>attack_target\<close> the damage returned is the amount
  drawn, and the defender's health goes down by \<open>min damage health\<close>; so the damage
  returned can exceed the health removed, as it does for a defender with 3 health hit
  for 5.
\<close>

theorem attack_target_reported_damage:
  "(attack_target self other (h, g) = (Inr (True, d), h', g') \<and> ref_of other < length h \<longrightarrow>
      fst (randint (fst (damage_range (fields (h ! self)))) (snd (damage_range (fields (h ! self))))
            ((advance ^^ nat (max 1 (attack (fields (h ! self)) - defense (fields (h ! ref_of other)) + 1))) g))
        = Inr d \<and>
      health (fields (h' ! ref_of other))
        = health (fields (h ! ref_of other)) - min d (health (fields (h ! ref_of other))))
 \<and> (\<exists>a t h0 g0 d0 h1 g1.
      attack_target a (PyRef t) (h0, g0) = (Inr (True, d0), h1, g1) \<and> t < length h0 \<and>
      health (fields (h0 ! t)) - health (fields (h1 ! t)) < d0)"
proof (intro conjI impI)
  assume a: "attack_target self other (h, g) = (Inr (True, d), h', g') \<and> ref_of other < length h"
  note hit = attack_target_hit [OF a [THEN conjunct1]]
  show "fst (randint (fst (damage_range (fields (h ! self)))) (snd (damage_range (fields (h ! self))))
            ((advance ^^ nat (max 1 (attack (fields (h ! self)) - defense (fields (h ! ref_of other)) + 1))) g))
        = Inr d"
    using hit by simp
  show "health (fields (h' ! ref_of other))
        = health (fields (h ! ref_of other)) - min d (health (fields (h ! ref_of other)))"
    using hit a by auto
next
  have "1 < length duel \<and>
      health (fields (duel ! 1)) - health (fields ([Creature \<lparr>name = ''A'', attack = 1, defense = 1, max_health = 10, health = 10, damage_range = (5, 5)\<rparr>,
       Creature \<lparr>name = ''B'', attack = 1, defense = 1, max_health = 10, health = 0, damage_range = (1, 1)\<rparr>] ! 1)) < 5"
    by (simp add: duel_def)
  with duel_hit show "\<exists>a t h0 g0 d0 h1 g1.
      attack_target a (PyRef t) (h0, g0) = (Inr (True, d0), h1, g1) \<and> t < length h0 \<and>
      health (fields (h0 ! t)) - health (fields (h1 ! t)) < d0"
    by blast
qed

theorem attack_target_reported_damage_witness:
  "fst (randint 5 5 ((advance ^^ 1) (\<lambda>i. 4))) = Inr 5
   \<and> health (fields (fst (snd (attack_target 0 (PyRef 1) (duel, \<lambda>i. 4))) ! 1)) = 3 - min 5 3"
  using attack_target_reported_damage [of 0 "PyRef 1" duel "\<lambda>i. 4" 5
      "fst (snd (attack_target 0 (PyRef 1) (duel, \<lambda>i. 4)))" "(advance ^^ 2) (\<lambda>i. 4)"]
    duel_hit
  by (simp add: duel_def)

end
